theory Spec2Isabelle
  imports Main "HOL-Library.Word"
begin

unbundle bit_operations_syntax

section \<open>Arithmetic in GF(2^8)\<close>

type_synonym byte = "8 word"

definition expTable :: "byte list" where
  "expTable = [
   1, 2, 4, 8, 16, 32, 64, 128, 29, 58, 116, 232, 205, 135, 19, 38,
   76, 152, 45, 90, 180, 117, 234, 201, 143, 3, 6, 12, 24, 48, 96, 192,
   157, 39, 78, 156, 37, 74, 148, 53, 106, 212, 181, 119, 238, 193, 159, 35,
   70, 140, 5, 10, 20, 40, 80, 160, 93, 186, 105, 210, 185, 111, 222, 161,
   95, 190, 97, 194, 153, 47, 94, 188, 101, 202, 137, 15, 30, 60, 120, 240,
   253, 231, 211, 187, 107, 214, 177, 127, 254, 225, 223, 163, 91, 182, 113, 226,
   217, 175, 67, 134, 17, 34, 68, 136, 13, 26, 52, 104, 208, 189, 103, 206,
   129, 31, 62, 124, 248, 237, 199, 147, 59, 118, 236, 197, 151, 51, 102, 204,
   133, 23, 46, 92, 184, 109, 218, 169, 79, 158, 33, 66, 132, 21, 42, 84,
   168, 77, 154, 41, 82, 164, 85, 170, 73, 146, 57, 114, 228, 213, 183, 115,
   230, 209, 191, 99, 198, 145, 63, 126, 252, 229, 215, 179, 123, 246, 241, 255,
   227, 219, 171, 75, 150, 49, 98, 196, 149, 55, 110, 220, 165, 87, 174, 65,
   130, 25, 50, 100, 200, 141, 7, 14, 28, 56, 112, 224, 221, 167, 83, 166,
   81, 162, 89, 178, 121, 242, 249, 239, 195, 155, 43, 86, 172, 69, 138, 9,
   18, 36, 72, 144, 61, 122, 244, 245, 247, 243, 251, 235, 203, 139, 11, 22,
   44, 88, 176, 125, 250, 233, 207, 131, 27, 54, 108, 216, 173, 71, 142, 1]"

definition logTable :: "byte list" where
  "logTable = [
   0, 0, 1, 25, 2, 50, 26, 198, 3, 223, 51, 238, 27, 104, 199, 75,
   4, 100, 224, 14, 52, 141, 239, 129, 28, 193, 105, 248, 200, 8, 76, 113,
   5, 138, 101, 47, 225, 36, 15, 33, 53, 147, 142, 218, 240, 18, 130, 69,
   29, 181, 194, 125, 106, 39, 249, 185, 201, 154, 9, 120, 77, 228, 114, 166,
   6, 191, 139, 98, 102, 221, 48, 253, 226, 152, 37, 179, 16, 145, 34, 136,
   54, 208, 148, 206, 143, 150, 219, 189, 241, 210, 19, 92, 131, 56, 70, 64,
   30, 66, 182, 163, 195, 72, 126, 110, 107, 58, 40, 84, 250, 133, 186, 61,
   202, 94, 155, 159, 10, 21, 121, 43, 78, 212, 229, 172, 115, 243, 167, 87,
   7, 112, 192, 247, 140, 128, 99, 13, 103, 74, 222, 237, 49, 197, 254, 24,
   227, 165, 153, 119, 38, 184, 180, 124, 17, 68, 146, 217, 35, 32, 137, 46,
   55, 63, 209, 91, 149, 188, 207, 205, 144, 135, 151, 178, 220, 252, 190, 97,
   242, 86, 211, 171, 20, 42, 93, 158, 132, 60, 57, 83, 71, 109, 65, 162,
   31, 45, 67, 216, 183, 123, 164, 118, 196, 23, 73, 236, 127, 12, 111, 246,
   108, 161, 59, 82, 41, 157, 85, 170, 251, 96, 134, 177, 187, 204, 62, 90,
   203, 89, 95, 176, 156, 169, 160, 81, 11, 245, 22, 235, 122, 117, 44, 215,
   79, 174, 213, 233, 230, 231, 173, 232, 116, 214, 244, 234, 168, 80, 88, 175]"

definition invTable :: "byte list" where
  "invTable = [
   0, 1, 142, 244, 71, 167, 122, 186, 173, 157, 221, 152, 61, 170, 93, 150,
   216, 114, 192, 88, 224, 62, 76, 102, 144, 222, 85, 128, 160, 131, 75, 42,
   108, 237, 57, 81, 96, 86, 44, 138, 112, 208, 31, 74, 38, 139, 51, 110,
   72, 137, 111, 46, 164, 195, 64, 94, 80, 34, 207, 169, 171, 12, 21, 225,
   54, 95, 248, 213, 146, 78, 166, 4, 48, 136, 43, 30, 22, 103, 69, 147,
   56, 35, 104, 140, 129, 26, 37, 97, 19, 193, 203, 99, 151, 14, 55, 65,
   36, 87, 202, 91, 185, 196, 23, 77, 82, 141, 239, 179, 32, 236, 47, 50,
   40, 209, 17, 217, 233, 251, 218, 121, 219, 119, 6, 187, 132, 205, 254, 252,
   27, 84, 161, 29, 124, 204, 228, 176, 73, 49, 39, 45, 83, 105, 2, 245,
   24, 223, 68, 79, 155, 188, 15, 92, 11, 220, 189, 148, 172, 9, 199, 162,
   28, 130, 159, 198, 52, 194, 70, 5, 206, 59, 13, 60, 156, 8, 190, 183,
   135, 229, 238, 107, 235, 242, 191, 175, 197, 100, 7, 123, 149, 154, 174, 182,
   18, 89, 165, 53, 101, 184, 163, 158, 210, 247, 98, 90, 133, 125, 168, 58,
   41, 113, 200, 246, 249, 67, 215, 214, 16, 115, 118, 120, 153, 10, 25, 145,
   20, 63, 230, 240, 134, 177, 226, 241, 250, 116, 243, 180, 109, 33, 178, 106,
   227, 231, 181, 234, 3, 143, 211, 201, 66, 212, 232, 117, 127, 255, 126, 253]"

definition galAdd :: "byte \<Rightarrow> byte \<Rightarrow> byte" where
  "galAdd a b = a XOR b"

definition galMultiply :: "byte \<Rightarrow> byte \<Rightarrow> byte" where
  "galMultiply a b = (if a = 0 \<or> b = 0 then 0
     else expTable ! ((unat (logTable ! unat a) + unat (logTable ! unat b)) mod 255))"

definition galDivide :: "byte \<Rightarrow> byte \<Rightarrow> byte option" where
  "galDivide a b = (if b = 0 then None
     else if a = 0 then Some 0
     else Some (expTable ! ((unat (logTable ! unat a) + 255 - unat (logTable ! unat b)) mod 255)))"

definition galExp :: "byte \<Rightarrow> nat \<Rightarrow> byte" where
  "galExp a n = (if n = 0 then 1 else if a = 0 then 0
     else expTable ! ((unat (logTable ! unat a) * n) mod 255))"

definition xtime :: "byte \<Rightarrow> byte" where
  "xtime b = (if bit b 7 then push_bit 1 b XOR 29 else push_bit 1 b)"

lemma expTable_step_all: "list_all (\<lambda>i. expTable ! Suc i = xtime (expTable ! i)) [0..<255]"
  by code_simp

lemma expTable_nonzero_all: "list_all (\<lambda>i. expTable ! i \<noteq> 0) [0..<255]"
  by code_simp

lemma log_exp_all: "list_all (\<lambda>i. unat (logTable ! unat (expTable ! i)) = i) [0..<255]"
  by code_simp

lemma exp_log_all:
  "list_all (\<lambda>n. unat (logTable ! n) < 255 \<and> expTable ! unat (logTable ! n) = of_nat n) [1..<256]"
  by code_simp

lemma inv_all:
  "list_all (\<lambda>n. galMultiply (of_nat n) (invTable ! n) = 1 \<and> invTable ! n \<noteq> 0) [1..<256]"
  by code_simp

definition glog :: "byte \<Rightarrow> nat" where
  "glog a = unat (logTable ! unat a)"

definition gexp :: "nat \<Rightarrow> byte" where
  "gexp n = expTable ! (n mod 255)"

lemma expTable_step: "i < 255 \<Longrightarrow> expTable ! Suc i = xtime (expTable ! i)"
  using expTable_step_all unfolding list_all_iff by simp

lemma expTable_nonzero: "i < 255 \<Longrightarrow> expTable ! i \<noteq> 0"
  using expTable_nonzero_all unfolding list_all_iff by simp

lemma expTable_255: "expTable ! 255 = 1"
  by code_simp

lemma expTable_0: "expTable ! 0 = 1"
  by code_simp

lemma gexp_nonzero: "gexp n \<noteq> 0"
  by (simp add: gexp_def expTable_nonzero)

lemma gexp_Suc: "gexp (Suc n) = xtime (gexp n)"
proof (cases "n mod 255 = 254")
  case True
  then have "Suc n mod 255 = 0" by (simp add: mod_Suc)
  moreover have "xtime (expTable ! 254) = 1"
    using expTable_step [of 254] expTable_255 by simp
  ultimately show ?thesis using True by (simp add: gexp_def expTable_0)
next
  case False
  then have "Suc n mod 255 = Suc (n mod 255)" by (simp add: mod_Suc)
  then show ?thesis by (simp add: gexp_def expTable_step)
qed

lemma glog_gexp: "glog (gexp n) = n mod 255"
proof -
  have "n mod 255 \<in> set [0..<255]" by simp
  then have "unat (logTable ! unat (expTable ! (n mod 255))) = n mod 255"
    using log_exp_all unfolding list_all_iff by blast
  then show ?thesis by (simp add: glog_def gexp_def)
qed

lemma gexp_mod: "gexp (n mod 255) = gexp n"
  by (simp add: gexp_def)

lemma glog_props:
  assumes a: "a \<noteq> 0"
  shows "glog a < 255 \<and> gexp (glog a) = a"
proof -
  have "unat a < 2 ^ LENGTH(8)" by (rule unsigned_less)
  then have "unat a \<in> set [1..<256]"
    using a unat_eq_0 [of a] by auto
  then have "unat (logTable ! unat a) < 255 \<and> expTable ! unat (logTable ! unat a) = of_nat (unat a)"
    using exp_log_all unfolding list_all_iff by blast
  then show ?thesis
    by (simp add: glog_def gexp_def)
qed

lemma galMultiply_gexp:
  "a \<noteq> 0 \<Longrightarrow> b \<noteq> 0 \<Longrightarrow> galMultiply a b = gexp (glog a + glog b)"
  by (simp add: galMultiply_def gexp_def glog_def)

lemma galMultiply_commute: "galMultiply a b = galMultiply b a"
  by (auto simp: galMultiply_def add.commute)

lemma galMultiply_zero_left [simp]: "galMultiply 0 b = 0"
  and galMultiply_zero_right [simp]: "galMultiply a 0 = 0"
  by (simp_all add: galMultiply_def)

lemma galMultiply_eq_0_iff [simp]: "galMultiply a b = 0 \<longleftrightarrow> a = 0 \<or> b = 0"
  using gexp_nonzero [of "glog a + glog b"]
  by (cases "a = 0"; cases "b = 0"; simp add: galMultiply_gexp)

lemma glog_one: "glog 1 = 0"
  by code_simp

lemma galMultiply_one_left [simp]: "galMultiply 1 b = b"
proof (cases "b = 0")
  case False
  then show ?thesis
    using glog_props [of b] by (simp add: galMultiply_gexp glog_one)
qed simp

lemma galMultiply_one_right [simp]: "galMultiply a 1 = a"
  using galMultiply_one_left [of a] by (simp add: galMultiply_commute)

lemma gexp_add_mod: "gexp (n mod 255 + k) = gexp (n + k)"
  unfolding gexp_def by (simp add: mod_add_left_eq)

lemma gexp_add_mod_right: "gexp (k + n mod 255) = gexp (k + n)"
  unfolding gexp_def by (simp add: mod_add_right_eq)

lemma galMultiply_assoc:
  "galMultiply (galMultiply a b) c = galMultiply a (galMultiply b c)"
proof (cases "a = 0 \<or> b = 0 \<or> c = 0")
  case True
  then show ?thesis by auto
next
  case False
  then have nz: "a \<noteq> 0" "b \<noteq> 0" "c \<noteq> 0" by simp_all
  have ab: "galMultiply a b \<noteq> 0" and bc: "galMultiply b c \<noteq> 0"
    using nz by simp_all
  have "galMultiply (galMultiply a b) c = gexp (glog (gexp (glog a + glog b)) + glog c)"
    using ab nz by (simp add: galMultiply_gexp)
  also have "\<dots> = gexp (glog a + glog b + glog c)"
    by (simp add: glog_gexp gexp_add_mod)
  also have "\<dots> = gexp (glog a + (glog b + glog c))"
    by (simp add: add.assoc)
  also have "\<dots> = gexp (glog a + glog (gexp (glog b + glog c)))"
    by (simp add: glog_gexp gexp_add_mod_right)
  also have "\<dots> = galMultiply a (galMultiply b c)"
    using bc nz by (simp add: galMultiply_gexp)
  finally show ?thesis .
qed

lemma xtime_zero [simp]: "xtime 0 = 0"
  by (simp add: xtime_def)

lemma xtime_xor: "xtime (x XOR y) = xtime x XOR xtime y"
  by (simp add: xtime_def bit_xor_iff push_bit_xor xor.assoc xor.commute xor.left_commute)

lemma xtime_pow_zero [simp]: "(xtime ^^ n) 0 = 0"
  by (induction n) simp_all

lemma xtime_pow_xor: "(xtime ^^ n) (x XOR y) = (xtime ^^ n) x XOR (xtime ^^ n) y"
  by (induction n) (simp_all add: xtime_xor)

lemma gexp_add: "gexp (n + k) = (xtime ^^ n) (gexp k)"
  by (induction n) (simp_all add: gexp_Suc)

lemma galMultiply_xtime_pow:
  assumes "a \<noteq> 0"
  shows "galMultiply a x = (xtime ^^ glog a) x"
proof (cases "x = 0")
  case False
  then show ?thesis
    using assms glog_props [of x] by (simp add: galMultiply_gexp gexp_add)
qed simp

lemma galMultiply_xor_right:
  "galMultiply a (x XOR y) = galMultiply a x XOR galMultiply a y"
proof (cases "a = 0")
  case False
  then show ?thesis by (simp add: galMultiply_xtime_pow xtime_pow_xor)
qed simp

lemma galMultiply_xor_left:
  "galMultiply (x XOR y) a = galMultiply x a XOR galMultiply y a"
  using galMultiply_xor_right [of a x y] by (simp add: galMultiply_commute)

lemma invTable_inverse:
  assumes "a \<noteq> 0"
  shows "galMultiply a (invTable ! unat a) = 1"
proof -
  have "unat a < 2 ^ LENGTH(8)" by (rule unsigned_less)
  then have "unat a \<in> set [1..<256]"
    using assms unat_eq_0 [of a] by auto
  then have "galMultiply (of_nat (unat a)) (invTable ! unat a) = 1"
    using inv_all unfolding list_all_iff by blast
  then show ?thesis by simp
qed

lemma galDivide_inverse:
  assumes "b \<noteq> 0"
  shows "\<exists>q. galDivide a b = Some q \<and> galMultiply q b = a"
proof (cases "a = 0")
  case True
  then show ?thesis using assms by (simp add: galDivide_def)
next
  case False
  let ?q = "gexp (glog a + 255 - glog b)"
  have lb: "glog b < 255" and la: "glog a < 255"
    using assms False glog_props by blast+
  have q: "galDivide a b = Some ?q"
    using assms False by (simp add: galDivide_def gexp_def glog_def)
  have "galMultiply ?q b = gexp (glog ?q + glog b)"
    using assms gexp_nonzero by (simp add: galMultiply_gexp)
  also have "\<dots> = gexp ((glog a + 255 - glog b) + glog b)"
    by (simp add: glog_gexp gexp_add_mod)
  also have "\<dots> = gexp (glog a + 255)"
    using lb by simp
  also have "\<dots> = gexp (glog a)"
    by (simp add: gexp_def)
  also have "\<dots> = a"
    using False glog_props by blast
  finally show ?thesis using q by blast
qed

section \<open>Errors\<close>

text \<open>
  The error values of the package. \<open>ErrSingular\<close> and \<open>ErrColSizeMismatch\<close> are the
  two failures of the matrix layer; \<open>Panic\<close> stands for a call that does not return: a
  Go run-time panic (an index out of range, a division by zero in the field), or a
  loop that never ends.
\<close>

datatype error =
    ErrInvShardNum | ErrMaxShardNum | ErrTooFewShards | ErrInvalidInput
  | ErrShardNoData | ErrShardSize | ErrShardsNotSurvival | ErrIndexNotIncremental
  | ErrShortData | ErrSingular | ErrColSizeMismatch | Panic

section \<open>Matrices over GF(2^8)\<close>

text \<open>
  Modelled from the spec: the matrix type and its operations (newMatrix, identityMatrix,
  Multiply, SubMatrix, Invert, vandermonde) live in matrix.go, which is not among the
  sources. A matrix is the list of its rows, as the Go type \<open>[][]byte\<close> is.
\<close>

type_synonym matrix = "byte list list"

definition newMatrix :: "nat \<Rightarrow> nat \<Rightarrow> matrix" where
  "newMatrix rows cols = replicate rows (replicate cols 0)"

definition identityMatrix :: "nat \<Rightarrow> matrix" where
  "identityMatrix n = map (\<lambda>r. map (\<lambda>c. if r = c then 1 else 0) [0..<n]) [0..<n]"

definition numCols :: "matrix \<Rightarrow> nat" where
  "numCols M = (case M of [] \<Rightarrow> 0 | row # _ \<Rightarrow> length row)"

definition dot :: "byte list \<Rightarrow> byte list \<Rightarrow> byte" where
  "dot u v = foldr (\<lambda>(a, b) acc. galAdd (galMultiply a b) acc) (zip u v) 0"

definition column :: "matrix \<Rightarrow> nat \<Rightarrow> byte list" where
  "column M c = map (\<lambda>row. row ! c) M"

text \<open>Multiply: the triple loop; it fails when the left column count differs from the
  right row count.\<close>

definition Multiply :: "matrix \<Rightarrow> matrix \<Rightarrow> error + matrix" where
  "Multiply A B =
     (if numCols A \<noteq> length B then Inl ErrColSizeMismatch
      else Inr (map (\<lambda>row. map (\<lambda>c. dot row (column B c)) [0..<numCols B]) A))"

definition SubMatrix :: "matrix \<Rightarrow> nat \<Rightarrow> nat \<Rightarrow> nat \<Rightarrow> nat \<Rightarrow> matrix" where
  "SubMatrix M rmin cmin rmax cmax =
     map (\<lambda>row. take (cmax - cmin) (drop cmin row)) (take (rmax - rmin) (drop rmin M))"

definition vandermonde :: "nat \<Rightarrow> nat \<Rightarrow> matrix" where
  "vandermonde rows cols = map (\<lambda>r. map (\<lambda>c. galExp (of_nat r) c) [0..<cols]) [0..<rows]"

subsection \<open>Gauss-Jordan inversion\<close>

definition vadd :: "byte list \<Rightarrow> byte list \<Rightarrow> byte list" where
  "vadd u v = map2 galAdd u v"

definition vscale :: "byte \<Rightarrow> byte list \<Rightarrow> byte list" where
  "vscale s v = map (galMultiply s) v"

definition swapRows :: "nat \<Rightarrow> nat \<Rightarrow> matrix \<Rightarrow> matrix" where
  "swapRows i j M = M[i := M ! j, j := M ! i]"

text \<open>Pivot selection for column \<open>k\<close>: when the diagonal element is zero, the first row
  below with a nonzero entry in column \<open>k\<close> is swapped in; there is none in a singular
  matrix.\<close>

definition gaussPivot :: "nat \<Rightarrow> matrix \<Rightarrow> matrix option" where
  "gaussPivot k M =
     (if M ! k ! k \<noteq> 0 then Some M
      else case find (\<lambda>r. M ! r ! k \<noteq> 0) [Suc k..<length M] of
             None \<Rightarrow> None
           | Some r \<Rightarrow> Some (swapRows k r M))"

text \<open>Elimination below and above the pivot: every other row with a nonzero entry in
  column \<open>k\<close> gets that multiple of row \<open>k\<close> added. Row \<open>k\<close> itself does not change, so
  the in-place loop over the rows is a map.\<close>

definition eliminate :: "nat \<Rightarrow> matrix \<Rightarrow> matrix" where
  "eliminate k M =
     map (\<lambda>r. if r \<noteq> k \<and> M ! r ! k \<noteq> 0
               then vadd (M ! r) (vscale (M ! r ! k) (M ! k)) else M ! r) [0..<length M]"

definition gaussColumn :: "nat \<Rightarrow> matrix \<Rightarrow> error + matrix" where
  "gaussColumn k M =
     (case gaussPivot k M of
        None \<Rightarrow> Inl ErrSingular
      | Some M1 \<Rightarrow>
          (case galDivide 1 (M1 ! k ! k) of
             None \<Rightarrow> Inl ErrSingular
           | Some s \<Rightarrow> Inr (eliminate k (M1[k := vscale s (M1 ! k)]))))"

fun gaussColumns :: "nat list \<Rightarrow> matrix \<Rightarrow> error + matrix" where
  "gaussColumns [] M = Inr M"
| "gaussColumns (k # ks) M =
     (case gaussColumn k M of Inl e \<Rightarrow> Inl e | Inr M' \<Rightarrow> gaussColumns ks M')"

definition gaussianElimination :: "matrix \<Rightarrow> error + matrix" where
  "gaussianElimination M = gaussColumns [0..<length M] M"

definition augment :: "matrix \<Rightarrow> matrix \<Rightarrow> matrix" where
  "augment A B = map2 (@) A B"

text \<open>Invert: the augmented matrix is \<open>[A | I]\<close>; once the left half is the identity the
  right half is the inverse.\<close>

definition Invert :: "matrix \<Rightarrow> error + matrix" where
  "Invert A =
     (case gaussianElimination (augment A (identityMatrix (length A))) of
        Inl e \<Rightarrow> Inl e
      | Inr M \<Rightarrow> Inr (map (drop (length A)) M))"

section \<open>Shard buffers\<close>

text \<open>
  A Go slice \<open>[]byte\<close> is either nil or a window on a backing array: \<open>Buf xs ys\<close> is the
  slice whose \<open>len\<close> bytes are \<open>xs\<close> and whose backing array goes on with \<open>ys\<close>, so
  that its capacity is \<open>length xs + length ys\<close>. The shard vector \<open>[][]byte\<close> is a list
  of such buffers and serves as the memory of the coder: an input or output slice of
  the coding loops is the position of its buffer in the vector. Distinct shards are
  taken not to overlap in memory.
\<close>

datatype shard = NilShard | Buf "byte list" "byte list"

fun bytesOf :: "shard \<Rightarrow> byte list" where
  "bytesOf NilShard = []"
| "bytesOf (Buf xs ys) = xs"

definition len :: "shard \<Rightarrow> nat" where
  "len s = length (bytesOf s)"

fun cap :: "shard \<Rightarrow> nat" where
  "cap NilShard = 0"
| "cap (Buf xs ys) = length xs + length ys"

text \<open>\<open>make([]byte, n)\<close>, the reslicing \<open>s[0:n]\<close> (for \<open>n\<close> within the capacity) and the
  store of new contents into the visible bytes of a buffer.\<close>

definition makeShard :: "nat \<Rightarrow> shard" where
  "makeShard n = Buf (replicate n 0) []"

fun reslice :: "shard \<Rightarrow> nat \<Rightarrow> shard" where
  "reslice NilShard n = NilShard"
| "reslice (Buf xs ys) n = Buf (take n (xs @ ys)) (drop n (xs @ ys))"

fun putBytes :: "shard \<Rightarrow> byte list \<Rightarrow> shard" where
  "putBytes NilShard zs = NilShard"
| "putBytes (Buf xs ys) zs = Buf zs ys"

definition growShard :: "nat \<Rightarrow> shard \<Rightarrow> shard" where
  "growShard sz s = (if sz \<le> cap s then reslice s sz else makeShard sz)"

text \<open>The slice expression \<open>s[start:stop]\<close>: the bytes \<open>start\<close> to \<open>stop\<close> of the backing
  array, which may lie beyond \<open>len\<close>; it panics (\<open>None\<close>) unless
  \<open>start \<le> stop \<le> cap\<close>. A store into that slice changes the backing array of \<open>s\<close>.\<close>

fun fullOf :: "shard \<Rightarrow> byte list" where
  "fullOf NilShard = []"
| "fullOf (Buf xs ys) = xs @ ys"

definition subslice :: "shard \<Rightarrow> nat \<Rightarrow> nat \<Rightarrow> byte list option" where
  "subslice s start stop =
     (if start \<le> stop \<and> stop \<le> cap s
      then Some (take (stop - start) (drop start (fullOf s))) else None)"

fun putSlice :: "shard \<Rightarrow> nat \<Rightarrow> byte list \<Rightarrow> shard" where
  "putSlice NilShard start zs = NilShard"
| "putSlice (Buf xs ys) start zs =
     (let f = take start (xs @ ys) @ zs @ drop (start + length zs) (xs @ ys)
      in Buf (take (length xs) f) (drop (length xs) f))"

section \<open>The slice kernels\<close>

text \<open>
  Modelled from the spec: galMulSlice, galMulSliceXor and sliceXor are in galois.go and
  its per-platform variants, which are not among the sources. The spec names them as
  the "multiply slice by constant into output" and "multiply-and-XOR-into-output"
  primitives and the XOR of two slices. Each walks the input and writes the output at
  the same index; an output shorter than the input is an index out of range (\<open>None\<close>).
\<close>

definition galMulSlice :: "byte \<Rightarrow> byte list \<Rightarrow> byte list \<Rightarrow> byte list option" where
  "galMulSlice c inp out =
     (if length inp \<le> length out
      then Some (map (galMultiply c) inp @ drop (length inp) out) else None)"

definition galMulSliceXor :: "byte \<Rightarrow> byte list \<Rightarrow> byte list \<Rightarrow> byte list option" where
  "galMulSliceXor c inp out =
     (if length inp \<le> length out
      then Some (map2 (\<lambda>i x. galMultiply c i XOR x) inp out @ drop (length inp) out)
      else None)"

definition sliceXor :: "byte list \<Rightarrow> byte list \<Rightarrow> byte list option" where
  "sliceXor inp out =
     (if length inp \<le> length out
      then Some (map2 (XOR) inp out @ drop (length inp) out) else None)"

fun foldO :: "('a \<Rightarrow> 's \<Rightarrow> 's option) \<Rightarrow> 'a list \<Rightarrow> 's \<Rightarrow> 's option" where
  "foldO f [] s = Some s"
| "foldO f (x # xs) s = (case f x s of None \<Rightarrow> None | Some s' \<Rightarrow> foldO f xs s')"

fun foldE :: "('a \<Rightarrow> 's \<Rightarrow> error + 's) \<Rightarrow> 'a list \<Rightarrow> 's \<Rightarrow> error + 's" where
  "foldE f [] s = Inr s"
| "foldE f (x # xs) s = (case f x s of Inl e \<Rightarrow> Inl e | Inr s' \<Rightarrow> foldE f xs s')"

section \<open>The encoder\<close>

text \<open>
  Modelled from the spec: the options (options.go) are not among the sources. The spec
  lists them; kept here are the four that select the coding matrix, the worker budget
  \<open>maxGoroutines\<close> and the split threshold \<open>minSplitSize\<close>, both Go integers.
\<close>

record options =
  useCauchy :: bool
  usePAR1Matrix :: bool
  useJerasureMatrix :: bool
  useAzureLrcP1Matrix :: bool
  maxGoroutines :: int
  minSplitSize :: int

text \<open>
  Modelled from the spec: the inversion tree (inversion_tree.go) is not among the
  sources. The spec describes it as a cache from the list of invalid indices to the
  decode matrix, whose root, the empty list, holds the identity. Here it is the list
  of the entries made so far, newest first.
\<close>

type_synonym inversionTree = "(nat list \<times> matrix) list"

definition newInversionTree :: "nat \<Rightarrow> nat \<Rightarrow> inversionTree" where
  "newInversionTree dataShards parityShards = [([], identityMatrix dataShards)]"

definition GetInvertedMatrix :: "inversionTree \<Rightarrow> nat list \<Rightarrow> matrix option" where
  "GetInvertedMatrix t invalidIndices = map_of t invalidIndices"

definition InsertInvertedMatrix ::
  "inversionTree \<Rightarrow> nat list \<Rightarrow> matrix \<Rightarrow> nat \<Rightarrow> error + inversionTree" where
  "InsertInvertedMatrix t invalidIndices M shards = Inr ((invalidIndices, M) # t)"

text \<open>The fields \<open>m\<close>, \<open>tree\<close>, \<open>parity\<close> and \<open>o\<close> of the Go struct carry the suffix
  \<open>_rs\<close> here.\<close>

record reedSolomon =
  DataShards :: nat
  ParityShards :: nat
  Shards :: nat
  m_rs :: matrix
  tree_rs :: inversionTree
  parity_rs :: matrix
  o_rs :: options

subsection \<open>The coding matrices\<close>

definition buildMatrix :: "nat \<Rightarrow> nat \<Rightarrow> error + matrix" where
  "buildMatrix dataShards totalShards =
     (let vm = vandermonde totalShards dataShards;
          top = SubMatrix vm 0 0 dataShards dataShards
      in case Invert top of
           Inl e \<Rightarrow> Inl e
         | Inr topInv \<Rightarrow> Multiply vm topInv)"

text \<open>One round of buildMatrixJerasure's main loop, for column \<open>i\<close>: the first row from
  \<open>i\<close> on with a nonzero entry in the column is swapped to row \<open>i\<close> (running off the end
  of the matrix is an index out of range); column \<open>i\<close> is scaled so that the pivot is 1;
  then every other column \<open>j\<close> gets the multiple of column \<open>i\<close> that clears row \<open>i\<close>.\<close>

definition jerasureColumn :: "nat \<Rightarrow> nat \<Rightarrow> nat \<Rightarrow> matrix \<Rightarrow> error + matrix" where
  "jerasureColumn dataShards totalShards i vm =
     (case find (\<lambda>r. vm ! r ! i \<noteq> 0) [i..<totalShards] of
        None \<Rightarrow> Inl Panic
      | Some r \<Rightarrow>
          (let vm1 = (if r \<noteq> i then swapRows r i vm else vm) in
           case (if vm1 ! i ! i \<noteq> 1
                 then (case galDivide 1 (vm1 ! i ! i) of
                         None \<Rightarrow> Inl Panic
                       | Some tmp \<Rightarrow> Inr (map (\<lambda>row. row[i := galMultiply (row ! i) tmp]) vm1))
                 else Inr vm1) of
             Inl e \<Rightarrow> Inl e
           | Inr vm2 \<Rightarrow>
               Inr (fold (\<lambda>j vm. let tmp = vm ! i ! j in
                           if j \<noteq> i \<and> tmp \<noteq> 0
                           then map (\<lambda>row. row[j := galAdd (row ! j) (galMultiply tmp (row ! i))]) vm
                           else vm) [0..<dataShards] vm2)))"

text \<open>The two normalisations that follow: each column divided so that row
  \<open>dataShards\<close> is all ones, then each later row divided so that column 0 is all ones.\<close>

definition jerasureOnesRow :: "nat \<Rightarrow> nat \<Rightarrow> nat \<Rightarrow> matrix \<Rightarrow> error + matrix" where
  "jerasureOnesRow dataShards totalShards j vm =
     (if totalShards \<le> dataShards then Inl Panic
      else let tmp = vm ! dataShards ! j in
        if tmp \<noteq> 1
        then (case galDivide 1 tmp of
                None \<Rightarrow> Inl Panic
              | Some tmp' \<Rightarrow>
                  Inr (fold (\<lambda>i vm. vm[i := (vm ! i)[j := galMultiply (vm ! i ! j) tmp']])
                         [dataShards..<totalShards] vm))
        else Inr vm)"

definition jerasureOnesColumn :: "nat \<Rightarrow> nat \<Rightarrow> matrix \<Rightarrow> error + matrix" where
  "jerasureOnesColumn dataShards i vm =
     (let tmp = vm ! i ! 0 in
      if tmp \<noteq> 1
      then (case galDivide 1 tmp of
              None \<Rightarrow> Inl Panic
            | Some tmp' \<Rightarrow>
                Inr (fold (\<lambda>j vm. vm[i := (vm ! i)[j := galMultiply (vm ! i ! j) tmp']])
                       [0..<dataShards] vm))
      else Inr vm)"

definition buildMatrixJerasure :: "nat \<Rightarrow> nat \<Rightarrow> error + matrix" where
  "buildMatrixJerasure dataShards totalShards =
     (if totalShards = 0 \<or> dataShards = 0 then Inl Panic
      else
        let vm = vandermonde totalShards dataShards;
            vm = vm[0 := 1 # replicate (dataShards - 1) 0];
            vm = vm[totalShards - 1 := replicate (dataShards - 1) 0 @ [1]]
        in case foldE (jerasureColumn dataShards totalShards) [0..<dataShards] vm of
             Inl e \<Rightarrow> Inl e
           | Inr vm \<Rightarrow>
               (case foldE (jerasureOnesRow dataShards totalShards) [0..<dataShards] vm of
                  Inl e \<Rightarrow> Inl e
                | Inr vm \<Rightarrow>
                    foldE (jerasureOnesColumn dataShards) [Suc dataShards..<totalShards] vm))"

text \<open>buildMatrixSpecialJerasure builds the Jerasure matrix with one more row and deletes
  row \<open>dataShards\<close>, the XOR row. Its second argument is an \<open>int\<close> that New can make
  negative; the larger matrix then has already failed.\<close>

definition buildMatrixSpecialJerasure :: "nat \<Rightarrow> int \<Rightarrow> error + matrix" where
  "buildMatrixSpecialJerasure dataShards totalShards =
     (case buildMatrixJerasure dataShards (nat (totalShards + 1)) of
        Inl e \<Rightarrow> Inl e
      | Inr vm \<Rightarrow>
          Inr (take (nat totalShards)
                 (fold (\<lambda>i vm. vm[i := vm ! (i + 1)]) [dataShards..<nat totalShards] vm)))"

text \<open>buildMatrixAzureLrcP1: the global parity rows, then \<open>localParityShards\<close> zero rows
  of which the first \<open>localParityShards - 1\<close> become the 0-1 rows of the data AZs and the
  last accumulates the global parity rows. \<open>col / localDataNum\<close> is a division by zero
  when \<open>localDataNum\<close> is 0.\<close>

definition buildMatrixAzureLrcP1 :: "nat \<Rightarrow> int \<Rightarrow> nat \<Rightarrow> error + matrix" where
  "buildMatrixAzureLrcP1 dataShards globalParityShards localParityShards =
     (case buildMatrixSpecialJerasure dataShards (globalParityShards + int dataShards) of
        Inl e \<Rightarrow> Inl e
      | Inr vm0 \<Rightarrow>
          (let vm = vm0 @ replicate localParityShards (replicate dataShards 0);
               g = nat (int dataShards + globalParityShards);
               localDataNum = dataShards div (localParityShards - 1)
           in if localParityShards - 1 = 0 \<or> (localDataNum = 0 \<and> 0 < dataShards)
              then Inl Panic
              else
                let vm = fold (\<lambda>row vm. vm[g + row :=
                            map (\<lambda>col. if col div localDataNum \<noteq> row then 0 else 1) [0..<dataShards]])
                          [0..<localParityShards - 1] vm;
                    lastRow = g + localParityShards - 1
                in Inr (fold (\<lambda>row vm. vm[lastRow := vadd (vm ! lastRow) (vm ! row)])
                          [dataShards..<g] vm)))"

definition buildMatrixPAR1 :: "nat \<Rightarrow> nat \<Rightarrow> error + matrix" where
  "buildMatrixPAR1 dataShards totalShards =
     Inr (map (\<lambda>r. if r < dataShards
                    then map (\<lambda>c. if c = r then 1 else 0) [0..<dataShards]
                    else map (\<lambda>c. galExp (of_nat (c + 1)) (r - dataShards)) [0..<dataShards])
            [0..<totalShards])"

definition buildMatrixCauchy :: "nat \<Rightarrow> nat \<Rightarrow> error + matrix" where
  "buildMatrixCauchy dataShards totalShards =
     Inr (map (\<lambda>r. if r < dataShards
                    then map (\<lambda>c. if c = r then 1 else 0) [0..<dataShards]
                    else map (\<lambda>c. invTable ! unat ((of_nat r :: byte) XOR of_nat c)) [0..<dataShards])
            [0..<totalShards])"

text \<open>New. With the option \<open>shardSize\<close> set, New replaces \<open>maxGoroutines\<close> by a count
  that it computes from the cache size and the number of CPUs of the machine; the
  model is New for \<open>shardSize = 0\<close>, the default, and the properties of Update below
  hold for every value of \<open>maxGoroutines\<close>.\<close>

definition New :: "int \<Rightarrow> int \<Rightarrow> options \<Rightarrow> error + reedSolomon" where
  "New dataShards parityShards opts =
     (if dataShards \<le> 0 \<or> parityShards \<le> 0 then Inl ErrInvShardNum
      else if dataShards + parityShards > 256 then Inl ErrMaxShardNum
      else
        let d = nat dataShards; p = nat parityShards; total = d + p in
        case (if useCauchy opts then buildMatrixCauchy d total
              else if usePAR1Matrix opts then buildMatrixPAR1 d total
              else if useJerasureMatrix opts then buildMatrixJerasure d total
              else if useAzureLrcP1Matrix opts
                   then buildMatrixAzureLrcP1 d (int total - int d - 3) 3
              else buildMatrix d total) of
          Inl e \<Rightarrow> Inl e
        | Inr M \<Rightarrow>
            Inr \<lparr> DataShards = d, ParityShards = p, Shards = total, m_rs = M,
                  tree_rs = newInversionTree d p,
                  parity_rs = map (\<lambda>i. M ! (d + i)) [0..<p], o_rs = opts \<rparr>)"

subsection \<open>Shape checks\<close>

fun shardSize :: "shard list \<Rightarrow> nat" where
  "shardSize [] = 0"
| "shardSize (s # ss) = (if len s \<noteq> 0 then len s else shardSize ss)"

definition checkShards :: "shard list \<Rightarrow> bool \<Rightarrow> error option" where
  "checkShards shards nilok =
     (let sz = shardSize shards in
      if sz = 0 then Some ErrShardNoData
      else if list_ex (\<lambda>s. len s \<noteq> sz \<and> (len s \<noteq> 0 \<or> \<not> nilok)) shards
           then Some ErrShardSize
      else None)"

subsection \<open>The coding loop\<close>

text \<open>
  codeSomeShards, the sequential loop. \<open>inputs\<close> and \<open>outputs\<close> are the positions in the
  shard vector \<open>mem\<close> of the input and output buffers; an input that is a nil slice is
  \<open>None\<close>. Column 0 overwrites the output (galMulSlice), the later columns XOR into it.
  The AVX-512 and goroutine variants, which split this loop over byte ranges, are not
  modelled.
\<close>

definition codeStep ::
  "matrix \<Rightarrow> nat option list \<Rightarrow> nat list \<Rightarrow> nat \<Rightarrow> nat \<Rightarrow> shard list \<Rightarrow> shard list option" where
  "codeStep matrixRows inputs outputs c iRow mem =
     (let inp = (case inputs ! c of None \<Rightarrow> [] | Some i \<Rightarrow> bytesOf (mem ! i));
          out = mem ! (outputs ! iRow)
      in case (if c = 0 then galMulSlice (matrixRows ! iRow ! c) inp (bytesOf out)
               else galMulSliceXor (matrixRows ! iRow ! c) inp (bytesOf out)) of
           None \<Rightarrow> None
         | Some bs \<Rightarrow> Some (mem[outputs ! iRow := putBytes out bs]))"

definition codeSomeShards ::
  "reedSolomon \<Rightarrow> matrix \<Rightarrow> nat option list \<Rightarrow> nat list \<Rightarrow> nat \<Rightarrow> nat \<Rightarrow> shard list
     \<Rightarrow> shard list option" where
  "codeSomeShards r matrixRows inputs outputs outputCount byteCount mem =
     foldO (\<lambda>c. foldO (codeStep matrixRows inputs outputs c) [0..<outputCount])
       [0..<DataShards r] mem"

subsection \<open>Encode\<close>

definition Encode :: "reedSolomon \<Rightarrow> shard list \<Rightarrow> error option \<times> shard list" where
  "Encode r shards =
     (if length shards \<noteq> Shards r then (Some ErrTooFewShards, shards)
      else case checkShards shards False of
        Some e \<Rightarrow> (Some e, shards)
      | None \<Rightarrow>
          (case codeSomeShards r (parity_rs r) (map Some [0..<DataShards r])
                  [DataShards r..<length shards] (ParityShards r) (len (shards ! 0)) shards of
             None \<Rightarrow> (Some Panic, shards)
           | Some shards' \<Rightarrow> (None, shards')))"

subsection \<open>Update\<close>

text \<open>updateParityShards, the sequential loop: for every column with a new data shard,
  the old data shard is XORed with the new one in place (sliceXor), and the product of
  the result with the column's coefficient is XORed into every parity shard.\<close>

definition updateColumn ::
  "matrix \<Rightarrow> shard list \<Rightarrow> nat list \<Rightarrow> nat \<Rightarrow> nat \<Rightarrow> shard list \<Rightarrow> shard list option" where
  "updateColumn matrixRows newinputs outputs outputCount c mem =
     (case newinputs ! c of
        NilShard \<Rightarrow> Some mem
      | Buf inp _ \<Rightarrow>
          (case sliceXor inp (bytesOf (mem ! c)) of
             None \<Rightarrow> None
           | Some oldin \<Rightarrow>
               foldO (\<lambda>iRow mem.
                        case galMulSliceXor (matrixRows ! iRow ! c) oldin
                               (bytesOf (mem ! (outputs ! iRow))) of
                          None \<Rightarrow> None
                        | Some bs \<Rightarrow>
                            Some (mem[outputs ! iRow := putBytes (mem ! (outputs ! iRow)) bs]))
                 [0..<outputCount] (mem[c := putBytes (mem ! c) oldin])))"

text \<open>
  updateParityShardsP, the same loop split over byte ranges. One goroutine is started
  for each range \<open>[start, stop)\<close>; it runs the loop over the columns on the slices
  \<open>in[start:stop]\<close>, \<open>oldin[start:stop]\<close> and \<open>outputs[iRow][start:stop]\<close>. The ranges of
  different goroutines are disjoint, so that their stores do not meet; the model runs
  them one after the other, in the order in which they are started. A panic in a
  goroutine ends the program.
\<close>

definition updateColumnP ::
  "matrix \<Rightarrow> shard list \<Rightarrow> nat list \<Rightarrow> nat \<Rightarrow> nat \<Rightarrow> nat \<Rightarrow> nat \<Rightarrow> shard list
     \<Rightarrow> shard list option" where
  "updateColumnP matrixRows newinputs outputs outputCount start stop c mem =
     (case newinputs ! c of
        NilShard \<Rightarrow> Some mem
      | Buf inp x \<Rightarrow>
          (case subslice (Buf inp x) start stop of
             None \<Rightarrow> None
           | Some inw \<Rightarrow>
               (case subslice (mem ! c) start stop of
                  None \<Rightarrow> None
                | Some oldw \<Rightarrow>
                    (case sliceXor inw oldw of
                       None \<Rightarrow> None
                     | Some oldin \<Rightarrow>
                         foldO (\<lambda>iRow mem.
                                  case subslice (mem ! (outputs ! iRow)) start stop of
                                    None \<Rightarrow> None
                                  | Some outw \<Rightarrow>
                                      (case galMulSliceXor (matrixRows ! iRow ! c) oldin outw of
                                         None \<Rightarrow> None
                                       | Some bs \<Rightarrow>
                                           Some (mem[outputs ! iRow :=
                                                   putSlice (mem ! (outputs ! iRow)) start bs])))
                           [0..<outputCount] (mem[c := putSlice (mem ! c) start oldin])))))"

text \<open>The loop that starts the goroutines: \<open>do\<close> bytes for each, the rest for the last.
  With \<open>do = 0\<close> the loop never ends (\<open>None\<close>).\<close>

function updateRanges ::
  "(nat \<Rightarrow> nat \<Rightarrow> shard list \<Rightarrow> shard list option) \<Rightarrow> nat \<Rightarrow> nat \<Rightarrow> nat \<Rightarrow> shard list
     \<Rightarrow> shard list option" where
  "updateRanges worker do start byteCount mem =
     (if start < byteCount
      then if do = 0 then None
           else (case worker start (start + (if start + do > byteCount then byteCount - start else do))
                        mem of
                   None \<Rightarrow> None
                 | Some mem' \<Rightarrow>
                     updateRanges worker (if start + do > byteCount then byteCount - start else do)
                       (start + (if start + do > byteCount then byteCount - start else do))
                       byteCount mem')
      else Some mem)"
  by pat_completeness auto

termination updateRanges
  by (relation "measure (\<lambda>(worker, do, start, byteCount, mem). byteCount - start)") auto

definition updateParityShardsP ::
  "reedSolomon \<Rightarrow> matrix \<Rightarrow> shard list \<Rightarrow> nat list \<Rightarrow> nat \<Rightarrow> nat \<Rightarrow> shard list
     \<Rightarrow> shard list option" where
  "updateParityShardsP r matrixRows newinputs outputs outputCount byteCount mem =
     (let do = int byteCount div maxGoroutines (o_rs r);
          do = (if do < minSplitSize (o_rs r) then minSplitSize (o_rs r) else do)
      in updateRanges
           (\<lambda>start stop.
              foldO (updateColumnP matrixRows newinputs outputs outputCount start stop)
                [0..<DataShards r])
           (nat do) 0 byteCount mem)"

definition updateParityShards ::
  "reedSolomon \<Rightarrow> matrix \<Rightarrow> shard list \<Rightarrow> nat list \<Rightarrow> nat \<Rightarrow> nat \<Rightarrow> shard list
     \<Rightarrow> shard list option" where
  "updateParityShards r matrixRows newinputs outputs outputCount byteCount mem =
     (if maxGoroutines (o_rs r) > 1 \<and> int byteCount > minSplitSize (o_rs r)
      then updateParityShardsP r matrixRows newinputs outputs outputCount byteCount mem
      else foldO (updateColumn matrixRows newinputs outputs outputCount) [0..<DataShards r] mem)"

definition Update :: "reedSolomon \<Rightarrow> shard list \<Rightarrow> shard list \<Rightarrow> error option \<times> shard list" where
  "Update r shards newDatashards =
     (if length shards \<noteq> Shards r then (Some ErrTooFewShards, shards)
      else if length newDatashards \<noteq> DataShards r then (Some ErrTooFewShards, shards)
      else case checkShards shards True of
        Some e \<Rightarrow> (Some e, shards)
      | None \<Rightarrow>
          (case checkShards newDatashards True of
             Some e \<Rightarrow> (Some e, shards)
           | None \<Rightarrow>
               if list_ex (\<lambda>i. newDatashards ! i \<noteq> NilShard \<and> shards ! i = NilShard)
                    [0..<length newDatashards]
               then (Some ErrInvalidInput, shards)
               else if list_ex (\<lambda>p. p = NilShard) (drop (DataShards r) shards)
               then (Some ErrInvalidInput, shards)
               else
                 (case updateParityShards r (parity_rs r) newDatashards
                         [DataShards r..<length shards] (ParityShards r) (shardSize shards)
                         shards of
                    None \<Rightarrow> (Some Panic, shards)
                  | Some shards' \<Rightarrow> (None, shards'))))"

subsection \<open>Reconstruct\<close>

text \<open>The scan of reconstruct for the first \<open>DataShards\<close> present shards: the indices of
  the present ones, and of the absent ones met on the way.\<close>

fun scanShards ::
  "nat \<Rightarrow> shard list \<Rightarrow> nat \<Rightarrow> nat list \<Rightarrow> nat list \<Rightarrow> nat list \<times> nat list" where
  "scanShards d [] matrixRow validIndices invalidIndices = (validIndices, invalidIndices)"
| "scanShards d (s # ss) matrixRow validIndices invalidIndices =
     (if length validIndices < d
      then (if len s \<noteq> 0
            then scanShards d ss (Suc matrixRow) (validIndices @ [matrixRow]) invalidIndices
            else scanShards d ss (Suc matrixRow) validIndices (invalidIndices @ [matrixRow]))
      else (validIndices, invalidIndices))"

text \<open>The block that reconstruct and PartialReconstruct both contain: the decode matrix
  comes from the tree, or is the inverse of \<open>subMatrix\<close>, which is then inserted.
  Building \<open>subMatrix\<close> happens on a miss only, and can itself run out of range.\<close>

definition cachedInverse ::
  "reedSolomon \<Rightarrow> nat list \<Rightarrow> error + matrix \<Rightarrow> error + matrix \<times> inversionTree" where
  "cachedInverse r invalidIndices subMatrix =
     (case GetInvertedMatrix (tree_rs r) invalidIndices of
        Some dataDecodeMatrix \<Rightarrow> Inr (dataDecodeMatrix, tree_rs r)
      | None \<Rightarrow>
          (case subMatrix of
             Inl e \<Rightarrow> Inl e
           | Inr subMatrix \<Rightarrow>
               (case Invert subMatrix of
                  Inl e \<Rightarrow> Inl e
                | Inr dataDecodeMatrix \<Rightarrow>
                    (case InsertInvertedMatrix (tree_rs r) invalidIndices dataDecodeMatrix
                            (Shards r) of
                       Inl e \<Rightarrow> Inl e
                     | Inr t \<Rightarrow> Inr (dataDecodeMatrix, t)))))"

definition numberPresent :: "shard list \<Rightarrow> nat" where
  "numberPresent shards = length (filter (\<lambda>s. len s \<noteq> 0) shards)"

definition reconstruct ::
  "reedSolomon \<Rightarrow> shard list \<Rightarrow> bool \<Rightarrow> error option \<times> shard list \<times> inversionTree" where
  "reconstruct r shards dataOnly =
     (if length shards \<noteq> Shards r then (Some ErrTooFewShards, shards, tree_rs r)
      else case checkShards shards True of
        Some e \<Rightarrow> (Some e, shards, tree_rs r)
      | None \<Rightarrow>
          let sz = shardSize shards in
          if numberPresent shards = Shards r then (None, shards, tree_rs r)
          else if numberPresent shards < DataShards r then (Some ErrTooFewShards, shards, tree_rs r)
          else
            let (validIndices, invalidIndices) = scanShards (DataShards r) shards 0 [] [];
                subMatrix = map (\<lambda>validIndex. map (\<lambda>c. m_rs r ! validIndex ! c) [0..<DataShards r])
                              validIndices
            in case cachedInverse r invalidIndices (Inr subMatrix) of
                 Inl e \<Rightarrow> (Some e, shards, tree_rs r)
               | Inr (dataDecodeMatrix, t) \<Rightarrow>
                   let missing = filter (\<lambda>iShard. len (shards ! iShard) = 0) [0..<DataShards r];
                       shards1 = fold (\<lambda>iShard mem. mem[iShard := growShard sz (mem ! iShard)])
                                   missing shards;
                       matrixRows = map (\<lambda>iShard. dataDecodeMatrix ! iShard) missing
                   in case codeSomeShards r matrixRows (map Some validIndices) missing
                             (length missing) sz shards1 of
                        None \<Rightarrow> (Some Panic, shards, t)
                      | Some shards2 \<Rightarrow>
                          if dataOnly then (None, shards2, t)
                          else
                            let missingP = filter (\<lambda>iShard. len (shards2 ! iShard) = 0)
                                             [DataShards r..<Shards r];
                                shards3 = fold (\<lambda>iShard mem. mem[iShard := growShard sz (mem ! iShard)])
                                            missingP shards2;
                                rowsP = map (\<lambda>iShard. parity_rs r ! (iShard - DataShards r)) missingP
                            in case codeSomeShards r rowsP (map Some [0..<DataShards r]) missingP
                                      (length missingP) sz shards3 of
                                 None \<Rightarrow> (Some Panic, shards, t)
                               | Some shards4 \<Rightarrow> (None, shards4, t))"

definition Reconstruct :: "reedSolomon \<Rightarrow> shard list \<Rightarrow> error option \<times> shard list \<times> inversionTree" where
  "Reconstruct r shards = reconstruct r shards False"

definition ReconstructData :: "reedSolomon \<Rightarrow> shard list \<Rightarrow> error option \<times> shard list \<times> inversionTree" where
  "ReconstructData r shards = reconstruct r shards True"

subsection \<open>PartialReconstruct\<close>

text \<open>
  PartialReconstruct, in the order of the source. Go panics where an index list runs
  out of its array: a survivor index outside \<open>[0, Shards)\<close> overflows \<open>invalidIndices\<close>,
  more than \<open>DataShards\<close> survivors overflow \<open>subMatrix\<close> and \<open>subShards\<close>, a bad index
  outside \<open>[0, Shards)\<close> has no row in the matrix, more than \<open>ParityShards\<close> bad indices
  overflow \<open>outputs\<close>. A failed multiplication returns nil.
\<close>

definition invalidEncodeMatrix :: "reedSolomon \<Rightarrow> int list \<Rightarrow> matrix" where
  "invalidEncodeMatrix r badIdx =
     map (\<lambda>invalidIndex. map (\<lambda>c. m_rs r ! nat invalidIndex ! c) [0..<DataShards r]) badIdx"

text \<open>The square matrix PartialReconstruct inverts on a cache miss: the rows of the
  coding matrix at the survivor indices, in a zero matrix of \<open>DataShards\<close> rows.\<close>

definition survivalSubMatrix :: "reedSolomon \<Rightarrow> int list \<Rightarrow> error + matrix" where
  "survivalSubMatrix r survivalIdx =
     (if DataShards r < length survivalIdx then Inl Panic
      else Inr (map (\<lambda>validIndex. map (\<lambda>c. m_rs r ! nat validIndex ! c) [0..<DataShards r])
                  survivalIdx
                @ replicate (DataShards r - length survivalIdx) (replicate (DataShards r) 0)))"

definition PartialReconstruct ::
  "reedSolomon \<Rightarrow> shard list \<Rightarrow> int list \<Rightarrow> int list
     \<Rightarrow> error option \<times> shard list \<times> inversionTree" where
  "PartialReconstruct r shards survivalIdx badIdx =
     (if length shards \<noteq> Shards r then (Some ErrTooFewShards, shards, tree_rs r)
      else if list_ex (\<lambda>i. survivalIdx ! i \<le> survivalIdx ! (i - 1)) [1..<length survivalIdx]
      then (Some ErrIndexNotIncremental, shards, tree_rs r)
      else if list_ex (\<lambda>i. badIdx ! i \<le> badIdx ! (i - 1)) [1..<length badIdx]
      then (Some ErrIndexNotIncremental, shards, tree_rs r)
      else if numberPresent shards = Shards r then (None, shards, tree_rs r)
      else if list_ex (\<lambda>i. len (shards ! i) \<noteq> 0 \<and> int i \<notin> set survivalIdx) [0..<Shards r]
      then (Some ErrShardsNotSurvival, shards, tree_rs r)
      else if list_ex (\<lambda>idx. idx < 0 \<or> int (Shards r) \<le> idx) survivalIdx
      then (Some Panic, shards, tree_rs r)
      else
        let invalidIndices = filter (\<lambda>i. int i \<notin> set survivalIdx) [0..<Shards r]
        in case cachedInverse r invalidIndices (survivalSubMatrix r survivalIdx) of
             Inl e \<Rightarrow> (Some e, shards, tree_rs r)
           | Inr (dataDecodeMatrix, t) \<Rightarrow>
               if list_ex (\<lambda>idx. idx < 0 \<or> int (Shards r) \<le> idx) badIdx
               then (Some Panic, shards, t)
               else
                 (case Multiply (invalidEncodeMatrix r badIdx) dataDecodeMatrix of
                    Inl e \<Rightarrow> (None, shards, t)
                  | Inr finalDecodeMatrix \<Rightarrow>
                      let sz = shardSize shards;
                          shards1 = fold (\<lambda>idx mem. if len (mem ! nat idx) = 0
                                                     then mem[nat idx := makeShard sz] else mem)
                                      survivalIdx shards
                      in if DataShards r < length survivalIdx then (Some Panic, shards, t)
                         else
                           let subShards = map (\<lambda>idx. Some (nat idx)) survivalIdx
                                           @ replicate (DataShards r - length survivalIdx) None
                           in if ParityShards r < length badIdx then (Some Panic, shards, t)
                              else
                                let outputs = map nat badIdx;
                                    shards2 = fold (\<lambda>iShard mem. mem[iShard := growShard sz (mem ! iShard)])
                                                outputs shards1
                                in case codeSomeShards r finalDecodeMatrix subShards outputs
                                          (length outputs) sz shards2 of
                                     None \<Rightarrow> (Some Panic, shards, t)
                                   | Some shards3 \<Rightarrow> (None, shards3, t)))"

subsection \<open>GetSurvivalShards\<close>

text \<open>
  The number of combinations to try is computed in floating point (\<open>math.Lgamma\<close>,
  \<open>math.Exp\<close>, \<open>math.Round\<close>); the model takes that function, \<open>comb\<close>, as a
  parameter. The binomial coefficient is its exact value.
\<close>

definition isContainedIn :: "int list \<Rightarrow> int list \<Rightarrow> bool" where
  "isContainedIn shortList longList =
     (length (filter (\<lambda>s. list_ex (\<lambda>l. s = l) longList) shortList) = length shortList)"

text \<open>The index of the first AZ whose layout holds the bad shard, 0 when none does.\<close>

definition findBadAz :: "int \<Rightarrow> int list list \<Rightarrow> nat" where
  "findBadAz bad azLayout =
     (case find (\<lambda>azId. list_ex (\<lambda>shardIdx. bad = shardIdx) (azLayout ! azId))
             [0..<length azLayout] of
        None \<Rightarrow> 0
      | Some azId \<Rightarrow> azId)"

text \<open>The step to the next combination: the last position \<open>j\<close> that is not at its
  maximum \<open>n - k + j\<close> is incremented and the positions after it follow on; with no such
  position the source indexes the array at \<open>-1\<close>.\<close>

definition nextCombination :: "nat \<Rightarrow> nat \<Rightarrow> nat list \<Rightarrow> nat list option" where
  "nextCombination n k tmpCombination =
     (case find (\<lambda>j. tmpCombination ! j \<noteq> n - k + j) (rev [0..<k]) of
        None \<Rightarrow> None
      | Some j \<Rightarrow>
          Some (take j tmpCombination
                @ map (\<lambda>t. tmpCombination ! j + 1 + t) [0..<k - j]))"

text \<open>The search loop, with \<open>todo\<close> iterations left; \<open>err\<close> is the error of the last
  inversion, which the source returns when the loop ends without a choice.\<close>

fun searchCombination ::
  "reedSolomon \<Rightarrow> int list \<Rightarrow> int list \<Rightarrow> nat list \<Rightarrow> nat \<Rightarrow> nat list \<Rightarrow> error option
     \<Rightarrow> int list \<times> int list \<times> error option" where
  "searchCombination r badIndex forComputationShards survivalIndices 0 tmpCombination err =
     ([], [], err)"
| "searchCombination r badIndex forComputationShards survivalIndices (Suc todo) tmpCombination err =
     (let subMatrix = map (\<lambda>sel. m_rs r ! (survivalIndices ! sel)) tmpCombination;
          n = length survivalIndices; k = DataShards r;
          continue = (\<lambda>err'.
            if todo = 0 then ([], [], err')
            else (case nextCombination n k tmpCombination of
                    None \<Rightarrow> ([], [], Some Panic)
                  | Some tmp' \<Rightarrow>
                      searchCombination r badIndex forComputationShards survivalIndices todo
                        tmp' err'))
      in case Invert subMatrix of
           Inl e \<Rightarrow> continue (Some e)
         | Inr _ \<Rightarrow>
             (let selectShards = map (\<lambda>sel. int (survivalIndices ! sel)) tmpCombination in
              if length badIndex > 1 \<or> \<not> useAzureLrcP1Matrix (o_rs r)
              then (if length badIndex = 1 then (selectShards, forComputationShards, None)
                    else (selectShards, selectShards, None))
              else if length badIndex = 1 \<and> isContainedIn forComputationShards selectShards
                        \<and> useAzureLrcP1Matrix (o_rs r)
              then (selectShards, forComputationShards, None)
              else continue None))"

definition GetSurvivalShards ::
  "(nat \<Rightarrow> nat \<Rightarrow> int) \<Rightarrow> reedSolomon \<Rightarrow> int list \<Rightarrow> int list list
     \<Rightarrow> int list \<times> int list \<times> error option" where
  "GetSurvivalShards comb r badIndex azLayout =
     (if badIndex = [] then ([], [], None)
      else if int (Shards r) - int (length badIndex) < int (DataShards r)
      then ([], [], Some ErrTooFewShards)
      else
        let localRepair = (length badIndex = 1 \<and> useAzureLrcP1Matrix (o_rs r)) in
        if localRepair \<and> azLayout = [] then ([], [], Some Panic)
        else
          let forComputationShards =
                (if localRepair
                 then filter (\<lambda>shardIdx. badIndex ! 0 \<noteq> shardIdx)
                        (azLayout ! findBadAz (badIndex ! 0) azLayout)
                 else []);
              survivalIndices = filter (\<lambda>i. int i \<notin> set badIndex) [0..<Shards r]
          in if Shards r - length badIndex < length survivalIndices
             then ([], [], Some Panic)
             else
               searchCombination r badIndex forComputationShards survivalIndices
                 (nat (comb (length survivalIndices) (DataShards r)))
                 [0..<DataShards r] None)"

section \<open>Well-formed encoders\<close>

text \<open>
  What New establishes and no method changes: the shard counts, and a coding matrix of
  \<open>Shards\<close> rows and \<open>DataShards\<close> columns whose last \<open>ParityShards\<close> rows are the
  parity rows.
\<close>

definition wf_encoder :: "reedSolomon \<Rightarrow> bool" where
  "wf_encoder r \<longleftrightarrow>
     0 < DataShards r \<and> 0 < ParityShards r \<and> Shards r = DataShards r + ParityShards r \<and>
     Shards r \<le> 256 \<and> length (m_rs r) = Shards r \<and>
     list_all (\<lambda>row. length row = DataShards r) (m_rs r) \<and>
     parity_rs r = drop (DataShards r) (m_rs r)"

text \<open>The default options. The spec does not give the default worker budget and split
  threshold; the values are those of the library, 384 goroutines and ranges of at
  least 1024 bytes.\<close>

definition defaultOptions :: options where
  "defaultOptions = \<lparr> useCauchy = False, usePAR1Matrix = False,
     useJerasureMatrix = False, useAzureLrcP1Matrix = False,
     maxGoroutines = 384, minSplitSize = 1024 \<rparr>"

text \<open>The encoder \<open>New(2, 1)\<close>, used for the concrete instances below.\<close>

definition enc21 :: reedSolomon where
  "enc21 = \<lparr> DataShards = 2, ParityShards = 1, Shards = 3,
     m_rs = [[1, 0], [0, 1], [3, 2]], tree_rs = newInversionTree 2 1,
     parity_rs = [[3, 2]], o_rs = defaultOptions \<rparr>"

lemma New_2_1: "New 2 1 defaultOptions = Inr enc21"
  by code_simp


lemma enc21_simps [simp]:
  "DataShards enc21 = 2" "ParityShards enc21 = 1" "Shards enc21 = 3"
  "m_rs enc21 = [[1, 0], [0, 1], [3, 2]]" "parity_rs enc21 = [[3, 2]]"
  "tree_rs enc21 = newInversionTree 2 1" "o_rs enc21 = defaultOptions"
  by (simp_all add: enc21_def)

section \<open>Shape checks\<close>

lemma len_simps [simp]:
  "len NilShard = 0" "len (Buf xs ys) = length xs"
  by (simp_all add: len_def)

lemma shardSize_all_empty: "\<forall>s\<in>set shards. len s = 0 \<Longrightarrow> shardSize shards = 0"
  by (induction shards) auto

lemma shardSize_mem: "shardSize shards \<noteq> 0 \<Longrightarrow> \<exists>s\<in>set shards. len s = shardSize shards"
  by (induction shards) (auto split: if_splits)

lemma shardSize_present: "s \<in> set shards \<Longrightarrow> len s \<noteq> 0 \<Longrightarrow> shardSize shards \<noteq> 0"
  by (induction shards) auto

lemma shardSize_uniform:
  "\<forall>s\<in>set shards. len s = n \<Longrightarrow> shards \<noteq> [] \<Longrightarrow> shardSize shards = n"
  by (cases shards) (auto simp: shardSize_all_empty)

lemma checkShards_None_iff:
  "checkShards shards nilok = None \<longleftrightarrow>
     shardSize shards \<noteq> 0 \<and>
     (\<forall>s\<in>set shards. len s = shardSize shards \<or> (len s = 0 \<and> nilok))"
  by (auto simp: checkShards_def Let_def list_ex_iff)

lemma numberPresent_eq_length:
  "numberPresent shards = length shards \<longleftrightarrow> (\<forall>s\<in>set shards. len s \<noteq> 0)"
  unfolding numberPresent_def by (metis (mono_tags, lifting) filter_id_conv length_filter_less less_irrefl_nat)

lemma incremental_check:
  "sorted_wrt (<) xs \<Longrightarrow> \<not> list_ex (\<lambda>i. xs ! i \<le> xs ! (i - 1)) [1..<length xs]"
  for xs :: "int list"
  by (auto simp: list_ex_iff sorted_wrt_iff_nth_less not_le)

section \<open>The presence checks of Reconstruct\<close>

text \<open>
  Claim C7. For a shard vector of length \<open>Shards\<close> that passes the shape check
  (\<open>checkShards\<close> with nil allowed): when every shard is present, Reconstruct returns
  nil and leaves the vector (and the tree) as it was; when fewer than \<open>DataShards\<close>
  shards are present, it returns ErrTooFewShards and leaves the vector as it was.
  ReconstructData behaves the same.
\<close>

theorem Reconstruct_presence_checks:
  assumes "length shards = Shards r"
    and "checkShards shards True = None"
    and "DataShards r \<le> Shards r"
  shows "((\<forall>s\<in>set shards. len s \<noteq> 0) \<longrightarrow>
            Reconstruct r shards = (None, shards, tree_rs r) \<and>
            ReconstructData r shards = (None, shards, tree_rs r)) \<and>
         (numberPresent shards < DataShards r \<longrightarrow>
            Reconstruct r shards = (Some ErrTooFewShards, shards, tree_rs r) \<and>
            ReconstructData r shards = (Some ErrTooFewShards, shards, tree_rs r))"
proof (intro conjI impI)
  assume "\<forall>s\<in>set shards. len s \<noteq> 0"
  then have all: "numberPresent shards = Shards r"
    using assms(1) numberPresent_eq_length [of shards] by simp
  show "Reconstruct r shards = (None, shards, tree_rs r)"
    using assms all by (simp add: Reconstruct_def reconstruct_def)
  show "ReconstructData r shards = (None, shards, tree_rs r)"
    using assms all by (simp add: ReconstructData_def reconstruct_def)
next
  assume few: "numberPresent shards < DataShards r"
  then have "numberPresent shards \<noteq> Shards r"
    using assms(3) by simp
  then show "Reconstruct r shards = (Some ErrTooFewShards, shards, tree_rs r)"
    and "ReconstructData r shards = (Some ErrTooFewShards, shards, tree_rs r)"
    using assms few by (simp_all add: Reconstruct_def ReconstructData_def reconstruct_def)
qed

theorem Reconstruct_presence_checks_witness:
  "Reconstruct enc21 [Buf [1, 2] [], Buf [3, 4] [], Buf [5, 14] []]
     = (None, [Buf [1, 2] [], Buf [3, 4] [], Buf [5, 14] []], tree_rs enc21) \<and>
   Reconstruct enc21 [NilShard, Buf [3, 4] [], Buf [] [7]]
     = (Some ErrTooFewShards, [NilShard, Buf [3, 4] [], Buf [] [7]], tree_rs enc21)"
proof -
  have a: "checkShards [Buf [1, 2] [], Buf [3, 4] [], Buf [5, 14] []] True = None"
    by (simp add: checkShards_def)
  have b: "checkShards [NilShard, Buf [3, 4] [], Buf [] [7]] True = None"
    by (simp add: checkShards_def)
  show ?thesis
    using Reconstruct_presence_checks [of "[Buf [1, 2] [], Buf [3, 4] [], Buf [5, 14] []]" enc21, OF _ a]
      Reconstruct_presence_checks [of "[NilShard, Buf [3, 4] [], Buf [] [7]]" enc21, OF _ b]
    by (simp add: numberPresent_def)
qed

section \<open>The all-present path of PartialReconstruct\<close>

text \<open>
  Claim C10. When the shard vector has length \<open>Shards\<close>, every shard is non-empty and
  \<open>survivalIdx\<close> and \<open>badIdx\<close> are strictly increasing, PartialReconstruct returns nil
  and changes nothing, whatever \<open>survivalIdx\<close> holds: the membership of the present
  shards in \<open>survivalIdx\<close> is checked only after this return, so ErrShardsNotSurvival is
  not returned here. The instance below has every shard present and no survivor index
  at all.
\<close>

theorem PartialReconstruct_all_present:
  assumes "length shards = Shards r"
    and "\<forall>s\<in>set shards. len s \<noteq> 0"
    and "sorted_wrt (<) survivalIdx"
    and "sorted_wrt (<) badIdx"
  shows "PartialReconstruct r shards survivalIdx badIdx = (None, shards, tree_rs r)"
proof -
  have "numberPresent shards = Shards r"
    using assms(1,2) numberPresent_eq_length [of shards] by simp
  then show ?thesis
    using assms(1) incremental_check [OF assms(3)] incremental_check [OF assms(4)]
    by (simp add: PartialReconstruct_def)
qed

theorem PartialReconstruct_all_present_witness:
  "PartialReconstruct enc21 [Buf [1, 2] [], Buf [3, 4] [], Buf [5, 14] []] [] [0]
     = (None, [Buf [1, 2] [], Buf [3, 4] [], Buf [5, 14] []], tree_rs enc21) \<and>
   list_ex (\<lambda>i. len ([Buf [1, 2] [], Buf [3, 4] [], Buf [5, 14] []] ! i) \<noteq> 0 \<and> int i \<notin> set [])
     [0..<Shards enc21]"
proof -
  have outside: "list_ex (\<lambda>i. len ([Buf [1, 2] [], Buf [3, 4] [], Buf [5, 14] []] ! i) \<noteq> 0
      \<and> int i \<notin> set []) [0..<Shards enc21]"
    by code_simp
  have "PartialReconstruct enc21 [Buf [1, 2] [], Buf [3, 4] [], Buf [5, 14] []] [] [0]
     = (None, [Buf [1, 2] [], Buf [3, 4] [], Buf [5, 14] []], tree_rs enc21)"
    using PartialReconstruct_all_present
            [of "[Buf [1, 2] [], Buf [3, 4] [], Buf [5, 14] []]" enc21 "[]" "[0]"]
    by simp
  then show ?thesis using outside by blast
qed

section \<open>Vectors over GF(2^8)\<close>

lemma galAdd_simps [simp]:
  "galAdd a 0 = a" "galAdd 0 a = a" "galAdd a a = 0"
  by (simp_all add: galAdd_def)

lemma galAdd_commute: "galAdd a b = galAdd b a"
  by (simp add: galAdd_def xor.commute)

lemma galAdd_assoc: "galAdd (galAdd a b) c = galAdd a (galAdd b c)"
  by (simp add: galAdd_def xor.assoc)

lemma galAdd_left_commute: "galAdd a (galAdd b c) = galAdd b (galAdd a c)"
  by (simp add: galAdd_def xor.left_commute)

lemmas galAdd_ac = galAdd_assoc galAdd_commute galAdd_left_commute

lemma galAdd_cancel [simp]: "galAdd a (galAdd a b) = b"
  by (simp add: galAdd_def flip: xor.assoc)

lemma galAdd_eq_0_iff [simp]: "galAdd a b = 0 \<longleftrightarrow> a = b"
proof
  assume "galAdd a b = 0"
  then have "galAdd a (galAdd a b) = galAdd a 0" by simp
  then show "a = b" by simp
qed simp

lemma galMultiply_galAdd_right:
  "galMultiply a (galAdd x y) = galAdd (galMultiply a x) (galMultiply a y)"
  by (simp add: galAdd_def galMultiply_xor_right)

lemma galMultiply_galAdd_left:
  "galMultiply (galAdd x y) a = galAdd (galMultiply x a) (galMultiply y a)"
  by (simp add: galAdd_def galMultiply_xor_left)

lemma dot_Nil [simp]: "dot [] v = 0" "dot u [] = 0"
  by (simp_all add: dot_def)

lemma dot_Cons [simp]: "dot (a # u) (x # v) = galAdd (galMultiply a x) (dot u v)"
  by (simp add: dot_def)

lemma dot_snoc:
  "length u = length v \<Longrightarrow> dot (u @ [a]) (v @ [x]) = galAdd (dot u v) (galMultiply a x)"
  by (induction u v rule: list_induct2) (simp_all add: galAdd_ac)

lemma dot_take_left:
  assumes "length v \<le> n"
  shows "dot (take n u) v = dot u v"
proof -
  have "zip (take n u) v = zip (take n u) (take n v)" using assms by simp
  also have "\<dots> = take n (zip u v)" by (simp add: take_zip)
  also have "\<dots> = zip u v" using assms by simp
  finally show ?thesis by (simp add: dot_def)
qed

text \<open>A row vector times a matrix with \<open>n\<close> columns.\<close>

definition rowTimes :: "byte list \<Rightarrow> matrix \<Rightarrow> nat \<Rightarrow> byte list" where
  "rowTimes row B n = map (\<lambda>c. dot row (column B c)) [0..<n]"

lemma length_rowTimes [simp]: "length (rowTimes row B n) = n"
  by (simp add: rowTimes_def)

lemma nth_rowTimes [simp]: "c < n \<Longrightarrow> rowTimes row B n ! c = dot row (column B c)"
  by (simp add: rowTimes_def)

lemma Multiply_rowTimes:
  "numCols A = length B \<Longrightarrow> Multiply A B = Inr (map (\<lambda>row. rowTimes row B (numCols B)) A)"
  by (simp add: Multiply_def rowTimes_def)

lemma column_snoc: "column (B @ [row]) c = column B c @ [row ! c]"
  by (simp add: column_def)

lemma length_column [simp]: "length (column B c) = length B"
  by (simp add: column_def)

section \<open>The coding loop computes a matrix product\<close>

lemma foldO_append:
  "foldO f (xs @ ys) s = (case foldO f xs s of None \<Rightarrow> None | Some s' \<Rightarrow> foldO f ys s')"
  by (induction xs arbitrary: s) (auto split: option.splits)

lemma bytesOf_putBytes: "length zs = len s \<Longrightarrow> bytesOf (putBytes s zs) = zs"
  by (cases s) simp_all

lemma putBytes_putBytes [simp]: "putBytes (putBytes s a) b = putBytes s b"
  by (cases s) simp_all

lemma putBytes_bytesOf [simp]: "putBytes s (bytesOf s) = s"
  by (cases s) simp_all

lemma len_putBytes: "length zs = len s \<Longrightarrow> len (putBytes s zs) = len s"
  by (cases s) simp_all

text \<open>\<open>coded mem outs vals mem'\<close>: the memory \<open>mem'\<close> is \<open>mem\<close> with the bytes of the
  \<open>k\<close>-th output buffer replaced by \<open>vals k\<close>.\<close>

definition coded :: "shard list \<Rightarrow> nat list \<Rightarrow> (nat \<Rightarrow> byte list) \<Rightarrow> shard list \<Rightarrow> bool" where
  "coded mem outs vals mem' \<longleftrightarrow>
     length mem' = length mem \<and>
     (\<forall>i<length mem. i \<notin> set outs \<longrightarrow> mem' ! i = mem ! i) \<and>
     (\<forall>k<length outs. mem' ! (outs ! k) = putBytes (mem ! (outs ! k)) (vals k))"

lemma coded_refl: "coded mem outs (\<lambda>k. bytesOf (mem ! (outs ! k))) mem"
  by (simp add: coded_def)

lemma coded_unique:
  assumes "coded mem outs vals a" "coded mem outs vals b" "\<forall>k<length outs. outs ! k < length mem"
  shows "a = b"
proof (rule nth_equalityI)
  show "length a = length b" using assms by (simp add: coded_def)
next
  fix i assume "i < length a"
  then have i: "i < length mem" using assms(1) by (simp add: coded_def)
  show "a ! i = b ! i"
  proof (cases "i \<in> set outs")
    case True
    then obtain k where "k < length outs" "outs ! k = i" by (auto simp: in_set_conv_nth)
    then show ?thesis using assms(1,2) unfolding coded_def by metis
  next
    case False
    then show ?thesis using assms(1,2) i by (simp add: coded_def)
  qed
qed

text \<open>The bytes one step of the loop leaves in an output, for input bytes \<open>inp\<close>.\<close>

definition stepBytes :: "matrix \<Rightarrow> nat \<Rightarrow> nat \<Rightarrow> byte list \<Rightarrow> byte list \<Rightarrow> byte list" where
  "stepBytes matrixRows c k inp out =
     (if c = 0 then map (galMultiply (matrixRows ! k ! c)) inp
      else map2 (\<lambda>i x. galMultiply (matrixRows ! k ! c) i XOR x) inp out)"

lemma galMulSlice_same_length:
  "length inp = length out \<Longrightarrow> galMulSlice c inp out = Some (map (galMultiply c) inp)"
  by (simp add: galMulSlice_def)

lemma galMulSliceXor_same_length:
  "length inp = length out \<Longrightarrow>
     galMulSliceXor c inp out = Some (map2 (\<lambda>i x. galMultiply c i XOR x) inp out)"
  by (simp add: galMulSliceXor_def)

lemma codeStep_Some:
  assumes "length inp = length (bytesOf (mem ! (outputs ! k)))"
    and "inp = (case inputs ! c of None \<Rightarrow> [] | Some i \<Rightarrow> bytesOf (mem ! i))"
  shows "codeStep matrixRows inputs outputs c k mem =
           Some (mem[outputs ! k := putBytes (mem ! (outputs ! k))
                   (stepBytes matrixRows c k inp (bytesOf (mem ! (outputs ! k))))])"
  unfolding codeStep_def Let_def assms(2) [symmetric] stepBytes_def
  using assms(1) by (simp add: galMulSlice_same_length galMulSliceXor_same_length)

lemma length_stepBytes:
  "length inp = length out \<Longrightarrow> length (stepBytes matrixRows c k inp out) = length inp"
  by (simp add: stepBytes_def)

lemma inner_loop:
  assumes cod: "coded mem outs vals mem1"
    and dist: "distinct outs"
    and rng: "\<forall>k<length outs. outs ! k < length mem"
    and inp: "inp = (case inputs ! c of None \<Rightarrow> [] | Some i \<Rightarrow> bytesOf (mem1 ! i))"
    and inp_out: "\<forall>i. inputs ! c = Some i \<longrightarrow> i < length mem \<and> i \<notin> set outs"
    and lens: "\<forall>k<length outs. length (vals k) = length inp \<and> len (mem ! (outs ! k)) = length inp"
    and j: "j \<le> length outs"
  shows "\<exists>mem2. foldO (codeStep matrixRows inputs outs c) [0..<j] mem1 = Some mem2 \<and>
           coded mem outs (\<lambda>k. if k < j then stepBytes matrixRows c k inp (vals k) else vals k) mem2"
  using j
proof (induction j)
  case 0
  then show ?case using cod by simp
next
  case (Suc j)
  then obtain mem2 where
    run: "foldO (codeStep matrixRows inputs outs c) [0..<j] mem1 = Some mem2"
    and c2: "coded mem outs (\<lambda>k. if k < j then stepBytes matrixRows c k inp (vals k) else vals k) mem2"
    by auto
  have jl: "j < length outs" using Suc.prems by simp
  have oj: "outs ! j < length mem" using rng jl by simp
  have len2: "length mem2 = length mem" using c2 by (simp add: coded_def)
  have at_j: "mem2 ! (outs ! j) = putBytes (mem ! (outs ! j)) (vals j)"
    using c2 jl unfolding coded_def by auto
  have bytes_j: "bytesOf (mem2 ! (outs ! j)) = vals j"
    using at_j lens jl by (simp add: bytesOf_putBytes)
  have inp2: "inp = (case inputs ! c of None \<Rightarrow> [] | Some i \<Rightarrow> bytesOf (mem2 ! i))"
  proof (cases "inputs ! c")
    case None
    then show ?thesis using inp by simp
  next
    case (Some i)
    then have "i < length mem" "i \<notin> set outs" using inp_out by auto
    then have "mem2 ! i = mem ! i" "mem1 ! i = mem ! i"
      using c2 cod by (simp_all add: coded_def)
    then show ?thesis using inp Some by simp
  qed
  have step: "codeStep matrixRows inputs outs c j mem2 =
      Some (mem2[outs ! j := putBytes (mem2 ! (outs ! j))
              (stepBytes matrixRows c j inp (bytesOf (mem2 ! (outs ! j))))])"
    using lens jl bytes_j inp2 by (intro codeStep_Some) simp_all
  let ?mem3 = "mem2[outs ! j := putBytes (mem ! (outs ! j)) (stepBytes matrixRows c j inp (vals j))]"
  have step': "codeStep matrixRows inputs outs c j mem2 = Some ?mem3"
    using step bytes_j at_j by simp
  have "foldO (codeStep matrixRows inputs outs c) [0..<Suc j] mem1 = Some ?mem3"
    using run step' by (simp add: foldO_append)
  moreover have "coded mem outs
      (\<lambda>k. if k < Suc j then stepBytes matrixRows c k inp (vals k) else vals k) ?mem3"
    unfolding coded_def
  proof (intro conjI allI impI)
    show "length ?mem3 = length mem" using len2 by simp
  next
    fix i assume "i < length mem" "i \<notin> set outs"
    then have "i \<noteq> outs ! j" using jl by auto
    then show "?mem3 ! i = mem ! i"
      using c2 \<open>i < length mem\<close> \<open>i \<notin> set outs\<close> by (simp add: coded_def)
  next
    fix k assume k: "k < length outs"
    show "?mem3 ! (outs ! k) = putBytes (mem ! (outs ! k))
        (if k < Suc j then stepBytes matrixRows c k inp (vals k) else vals k)"
    proof (cases "k = j")
      case True
      then show ?thesis using oj len2 by simp
    next
      case False
      then have "outs ! k \<noteq> outs ! j"
        using dist k jl by (simp add: nth_eq_iff_index_eq)
      moreover have "mem2 ! (outs ! k) = putBytes (mem ! (outs ! k))
          (if k < j then stepBytes matrixRows c k inp (vals k) else vals k)"
        using c2 k unfolding coded_def by auto
      ultimately show ?thesis using False by (auto simp: less_Suc_eq)
    qed
  qed
  ultimately show ?case by blast
qed

lemma coded_cong:
  "coded mem outs vals mem' \<Longrightarrow> \<forall>k<length outs. vals k = vals' k \<Longrightarrow> coded mem outs vals' mem'"
  by (simp add: coded_def)

lemma stepBytes_first:
  assumes "length inp = sz" and "matrixRows ! k \<noteq> []"
  shows "stepBytes matrixRows 0 k inp out = rowTimes (take 1 (matrixRows ! k)) [inp] sz"
proof (rule nth_equalityI)
  show "length (stepBytes matrixRows 0 k inp out) = length (rowTimes (take 1 (matrixRows ! k)) [inp] sz)"
    using assms by (simp add: stepBytes_def)
next
  fix b assume "b < length (stepBytes matrixRows 0 k inp out)"
  then have b: "b < sz" using assms by (simp add: stepBytes_def)
  obtain a as where row: "matrixRows ! k = a # as"
    using assms(2) by (cases "matrixRows ! k") auto
  then show "stepBytes matrixRows 0 k inp out ! b = rowTimes (take 1 (matrixRows ! k)) [inp] sz ! b"
    using b assms(1) by (simp add: stepBytes_def column_def)
qed

lemma stepBytes_next:
  assumes "length inp = sz" and "c < length row" and "length B = c" and "row = matrixRows ! k"
    and "0 < c"
  shows "stepBytes matrixRows c k inp (rowTimes (take c row) B sz)
           = rowTimes (take (Suc c) row) (B @ [inp]) sz"
proof (rule nth_equalityI)
  show "length (stepBytes matrixRows c k inp (rowTimes (take c row) B sz))
          = length (rowTimes (take (Suc c) row) (B @ [inp]) sz)"
    using assms by (simp add: stepBytes_def)
next
  fix b assume "b < length (stepBytes matrixRows c k inp (rowTimes (take c row) B sz))"
  then have b: "b < sz" using assms by (simp add: stepBytes_def)
  have "dot (take (Suc c) row) (column (B @ [inp]) b)
          = galAdd (dot (take c row) (column B b)) (galMultiply (row ! c) (inp ! b))"
    using assms(2,3) by (simp add: take_Suc_conv_app_nth column_snoc dot_snoc)
  then show "stepBytes matrixRows c k inp (rowTimes (take c row) B sz) ! b
          = rowTimes (take (Suc c) row) (B @ [inp]) sz ! b"
    using b assms by (simp add: stepBytes_def galAdd_def xor.commute)
qed

text \<open>The loop, run on inputs and outputs that do not overlap and have one length
  \<open>sz\<close>, leaves in the \<open>k\<close>-th output the product of the \<open>k\<close>-th matrix row with the
  inputs.\<close>

lemma codeSomeShards_coded:
  assumes d: "DataShards r = length ins" "0 < length ins"
    and dist: "distinct outs"
    and rng: "\<forall>k<length outs. outs ! k < length mem"
    and ins: "\<forall>i\<in>set ins. i < length mem \<and> i \<notin> set outs \<and> len (mem ! i) = sz"
    and outs: "\<forall>k<length outs. len (mem ! (outs ! k)) = sz"
    and rows: "\<forall>k<length outs. length ins \<le> length (matrixRows ! k)"
  shows "\<exists>mem'. codeSomeShards r matrixRows (map Some ins) outs (length outs) byteCount mem = Some mem' \<and>
           coded mem outs (\<lambda>k. rowTimes (matrixRows ! k) (map (\<lambda>i. bytesOf (mem ! i)) ins) sz) mem'"
proof -
  let ?D = "map (\<lambda>i. bytesOf (mem ! i)) ins"
  let ?acc = "\<lambda>c k. if c = 0 then bytesOf (mem ! (outs ! k))
                      else rowTimes (take c (matrixRows ! k)) (take c ?D) sz"
  let ?loop = "\<lambda>c. foldO (codeStep matrixRows (map Some ins) outs c) [0..<length outs]"
  have main: "c \<le> length ins \<Longrightarrow>
      \<exists>mem1. foldO ?loop [0..<c] mem = Some mem1 \<and> coded mem outs (?acc c) mem1" for c
  proof (induction c)
    case 0
    then show ?case using coded_refl [of mem outs] by simp
  next
    case (Suc c)
    then obtain mem1 where run: "foldO ?loop [0..<c] mem = Some mem1"
      and c1: "coded mem outs (?acc c) mem1" by auto
    have cl: "c < length ins" using Suc.prems by simp
    let ?i = "ins ! c"
    have i: "?i < length mem" "?i \<notin> set outs" "len (mem ! ?i) = sz"
      using ins cl by (auto simp: all_set_conv_all_nth)
    have same: "mem1 ! ?i = mem ! ?i" using c1 i by (simp add: coded_def)
    let ?inp = "bytesOf (mem ! ?i)"
    have linp: "length ?inp = sz" using i(3) by (simp add: len_def)
    have "\<exists>mem2. foldO (codeStep matrixRows (map Some ins) outs c) [0..<length outs] mem1 = Some mem2 \<and>
        coded mem outs (\<lambda>k. if k < length outs then stepBytes matrixRows c k ?inp (?acc c k)
                             else ?acc c k) mem2"
    proof (rule inner_loop [OF c1 dist rng])
      show "?inp = (case map Some ins ! c of None \<Rightarrow> [] | Some i \<Rightarrow> bytesOf (mem1 ! i))"
        using cl same by simp
      show "\<forall>i. map Some ins ! c = Some i \<longrightarrow> i < length mem \<and> i \<notin> set outs"
        using cl i by simp
      show "\<forall>k<length outs. length (?acc c k) = length ?inp \<and> len (mem ! (outs ! k)) = length ?inp"
        using outs linp by (simp add: len_def)
      show "length outs \<le> length outs" by simp
    qed
    then obtain mem2 where
      run2: "foldO (codeStep matrixRows (map Some ins) outs c) [0..<length outs] mem1 = Some mem2"
      and c2: "coded mem outs (\<lambda>k. if k < length outs then stepBytes matrixRows c k ?inp (?acc c k)
                             else ?acc c k) mem2"
      by blast
    have "foldO ?loop [0..<Suc c] mem = Some mem2"
      using run run2 by (simp add: foldO_append)
    moreover have "coded mem outs (?acc (Suc c)) mem2"
    proof (rule coded_cong [OF c2], intro allI impI)
      fix k assume k: "k < length outs"
      have rk: "c < length (matrixRows ! k)" using rows k cl by fastforce
      have tk: "take (Suc c) ?D = take c ?D @ [?inp]"
        using cl by (simp add: take_Suc_conv_app_nth)
      show "(if k < length outs then stepBytes matrixRows c k ?inp (?acc c k) else ?acc c k)
              = ?acc (Suc c) k"
      proof (cases "c = 0")
        case True
        have "matrixRows ! k \<noteq> []" using rk by auto
        then show ?thesis
          using k True tk stepBytes_first [OF linp, of matrixRows k] by simp
      next
        case False
        have "stepBytes matrixRows c k ?inp (rowTimes (take c (matrixRows ! k)) (take c ?D) sz)
                = rowTimes (take (Suc c) (matrixRows ! k)) (take c ?D @ [?inp]) sz"
          using cl False by (intro stepBytes_next [OF linp rk]) simp_all
        then show ?thesis using k False tk by simp
      qed
    qed
    ultimately show ?case by blast
  qed
  obtain mem' where run: "foldO ?loop [0..<length ins] mem = Some mem'"
    and c': "coded mem outs (?acc (length ins)) mem'"
    using main [of "length ins"] by auto
  have "coded mem outs (\<lambda>k. rowTimes (matrixRows ! k) ?D sz) mem'"
  proof (rule coded_cong [OF c'], intro allI impI)
    fix k assume k: "k < length outs"
    have "rowTimes (take (length ins) (matrixRows ! k)) ?D sz = rowTimes (matrixRows ! k) ?D sz"
      by (simp add: rowTimes_def dot_take_left)
    then show "?acc (length ins) k = rowTimes (matrixRows ! k) ?D sz"
      using d(2) by simp
  qed
  then show ?thesis using run d(1) by (auto simp: codeSomeShards_def)
qed

section \<open>Encode\<close>

lemma wf_encoderD:
  assumes "wf_encoder r"
  shows "0 < DataShards r" "0 < ParityShards r" "Shards r = DataShards r + ParityShards r"
    "Shards r \<le> 256" "length (m_rs r) = Shards r"
    "\<And>i. i < Shards r \<Longrightarrow> length (m_rs r ! i) = DataShards r"
    "parity_rs r = drop (DataShards r) (m_rs r)"
    "length (parity_rs r) = ParityShards r"
    "\<And>k. k < ParityShards r \<Longrightarrow> parity_rs r ! k = m_rs r ! (DataShards r + k)"
  using assms by (auto simp: wf_encoder_def list_all_length)

lemma map_nth_upt_take:
  "d \<le> length xs \<Longrightarrow> map (\<lambda>i. f (xs ! i)) [0..<d] = map f (take d xs)"
  by (rule nth_equalityI) simp_all

lemma numCols_nth: "M \<noteq> [] \<Longrightarrow> numCols M = length (M ! 0)"
  by (cases M) (simp_all add: numCols_def)

lemma coded_nth:
  "coded mem outs vals mem' \<Longrightarrow> k < length outs \<Longrightarrow>
     mem' ! (outs ! k) = putBytes (mem ! (outs ! k)) (vals k)"
  by (simp add: coded_def)

lemma coded_other:
  "coded mem outs vals mem' \<Longrightarrow> i < length mem \<Longrightarrow> i \<notin> set outs \<Longrightarrow> mem' ! i = mem ! i"
  by (simp add: coded_def)

lemma coded_length: "coded mem outs vals mem' \<Longrightarrow> length mem' = length mem"
  by (simp add: coded_def)




lemma Encode_well_shaped:
  assumes wf: "wf_encoder r"
    and len: "length shards = Shards r"
    and n: "0 < n" "\<forall>s\<in>set shards. len s = n"
  shows "fst (Encode r shards) = None"
    and "length (snd (Encode r shards)) = Shards r"
    and "take (DataShards r) (snd (Encode r shards)) = take (DataShards r) shards"
    and "Multiply (parity_rs r) (map bytesOf (take (DataShards r) shards))
           = Inr (map bytesOf (drop (DataShards r) (snd (Encode r shards))))"
proof -
  note w = wf_encoderD [OF wf]
  let ?d = "DataShards r" and ?p = "ParityShards r"
  let ?outs = "[?d..<length shards]"
  let ?D = "map (\<lambda>i. bytesOf (shards ! i)) [0..<?d]"
  have ne: "shards \<noteq> []" using len w by auto
  have chk: "checkShards shards False = None"
    using n ne shardSize_uniform [of shards n] by (simp add: checkShards_None_iff)
  have lo: "length ?outs = ?p" using len w by simp
  have "\<exists>mem'. codeSomeShards r (parity_rs r) (map Some [0..<?d]) ?outs (length ?outs)
            (len (shards ! 0)) shards = Some mem' \<and>
          coded shards ?outs (\<lambda>k. rowTimes (parity_rs r ! k) ?D n) mem'"
  proof (rule codeSomeShards_coded)
    show "DataShards r = length [0..<?d]" "0 < length [0..<?d]" using w by simp_all
    show "distinct ?outs" by simp
    show "\<forall>k<length ?outs. ?outs ! k < length shards" by (simp add: less_diff_conv add.commute)
    show "\<forall>i\<in>set [0..<?d]. i < length shards \<and> i \<notin> set ?outs \<and> len (shards ! i) = n"
      using len w n by simp
    show "\<forall>k<length ?outs. len (shards ! (?outs ! k)) = n" using n by simp
    show "\<forall>k<length ?outs. length [0..<?d] \<le> length (parity_rs r ! k)"
      using lo w by simp
  qed
  then obtain mem' where run: "codeSomeShards r (parity_rs r) (map Some [0..<?d]) ?outs ?p
            (len (shards ! 0)) shards = Some mem'"
    and cod: "coded shards ?outs (\<lambda>k. rowTimes (parity_rs r ! k) ?D n) mem'"
    using lo by auto
  have enc: "Encode r shards = (None, mem')"
    using len chk run by (simp add: Encode_def)
  have lm: "length mem' = length shards" using cod by (simp add: coded_def)
  show "fst (Encode r shards) = None" using enc by simp
  show "length (snd (Encode r shards)) = Shards r" using enc lm len by simp
  have "take ?d mem' = take ?d shards"
  proof (rule nth_equalityI)
    show "length (take ?d mem') = length (take ?d shards)" using lm by simp
  next
    fix i assume "i < length (take ?d mem')"
    then have "i < ?d" "i < length shards" using lm by simp_all
    then show "take ?d mem' ! i = take ?d shards ! i" using cod by (simp add: coded_def)
  qed
  then show "take ?d (snd (Encode r shards)) = take ?d shards" using enc by simp
  have D: "?D = map bytesOf (take ?d shards)"
    using len w by (intro map_nth_upt_take) simp
  have Dne: "?D \<noteq> []" using w by simp
  have "length (?D ! 0) = n" using w n len by (simp add: len_def [symmetric])
  then have ncD: "numCols ?D = n" using numCols_nth [OF Dne] by simp
  have pne: "parity_rs r \<noteq> []" using w by auto
  have ncP: "numCols (parity_rs r) = length ?D"
    using numCols_nth [OF pne] w by simp
  have "map bytesOf (drop ?d mem') = map (\<lambda>row. rowTimes row ?D n) (parity_rs r)"
  proof (rule nth_equalityI)
    show "length (map bytesOf (drop ?d mem')) = length (map (\<lambda>row. rowTimes row ?D n) (parity_rs r))"
      using lm len w by simp
  next
    fix k assume "k < length (map bytesOf (drop ?d mem'))"
    then have k: "k < ?p" using lm len w by simp
    have ok: "?outs ! k = ?d + k" "k < length ?outs" using k len w by simp_all
    have "mem' ! (?d + k) = putBytes (shards ! (?d + k)) (rowTimes (parity_rs r ! k) ?D n)"
      using coded_nth [OF cod ok(2)] ok(1) by simp
    moreover have "len (shards ! (?d + k)) = n" using n k len w by simp
    ultimately have "bytesOf (mem' ! (?d + k)) = rowTimes (parity_rs r ! k) ?D n"
      by (simp add: bytesOf_putBytes)
    then show "map bytesOf (drop ?d mem') ! k = map (\<lambda>row. rowTimes row ?D n) (parity_rs r) ! k"
      using k lm len w by simp
  qed
  then show "Multiply (parity_rs r) (map bytesOf (take ?d shards))
           = Inr (map bytesOf (drop ?d (snd (Encode r shards))))"
    using Multiply_rowTimes [OF ncP] ncD enc D by simp
qed



section \<open>Update\<close>


lemma galMulSliceXor_length: "galMulSliceXor c inp out = Some res \<Longrightarrow> length res = length out"
  by (auto simp: galMulSliceXor_def split: if_splits)

text \<open>The loop over the parity rows inside one column of updateParityShards.\<close>

definition updateRows ::
  "matrix \<Rightarrow> nat list \<Rightarrow> nat \<Rightarrow> byte list \<Rightarrow> nat \<Rightarrow> shard list \<Rightarrow> shard list option" where
  "updateRows matrixRows outputs c oldin iRow mem =
     (case galMulSliceXor (matrixRows ! iRow ! c) oldin (bytesOf (mem ! (outputs ! iRow))) of
        None \<Rightarrow> None
      | Some bs \<Rightarrow> Some (mem[outputs ! iRow := putBytes (mem ! (outputs ! iRow)) bs]))"

lemma updateColumn_alt:
  "updateColumn matrixRows newinputs outputs outputCount c mem =
     (case newinputs ! c of
        NilShard \<Rightarrow> Some mem
      | Buf inp x \<Rightarrow>
          (case sliceXor inp (bytesOf (mem ! c)) of
             None \<Rightarrow> None
           | Some oldin \<Rightarrow>
               foldO (updateRows matrixRows outputs c oldin) [0..<outputCount]
                 (mem[c := putBytes (mem ! c) oldin])))"
  unfolding updateColumn_def updateRows_def by simp




subsection \<open>The goroutine variant\<close>

text \<open>The loop over the parity rows inside one column of a goroutine.\<close>

definition updateRowsP ::
  "matrix \<Rightarrow> nat list \<Rightarrow> nat \<Rightarrow> byte list \<Rightarrow> nat \<Rightarrow> nat \<Rightarrow> nat \<Rightarrow> shard list
     \<Rightarrow> shard list option" where
  "updateRowsP matrixRows outputs c oldin start stop iRow mem =
     (case subslice (mem ! (outputs ! iRow)) start stop of
        None \<Rightarrow> None
      | Some outw \<Rightarrow>
          (case galMulSliceXor (matrixRows ! iRow ! c) oldin outw of
             None \<Rightarrow> None
           | Some bs \<Rightarrow> Some (mem[outputs ! iRow := putSlice (mem ! (outputs ! iRow)) start bs])))"

text \<open>The bytes \<open>[start, stop)\<close> of a list, and a list with a new content from \<open>start\<close> on.\<close>

definition window :: "nat \<Rightarrow> nat \<Rightarrow> byte list \<Rightarrow> byte list" where
  "window start stop V = take (stop - start) (drop start V)"

definition splice :: "nat \<Rightarrow> byte list \<Rightarrow> byte list \<Rightarrow> byte list" where
  "splice start zs V = take start V @ zs @ drop (start + length zs) V"

lemma updateColumnP_alt:
  "updateColumnP matrixRows newinputs outputs outputCount start stop c mem =
     (case newinputs ! c of
        NilShard \<Rightarrow> Some mem
      | Buf inp x \<Rightarrow>
          (case subslice (Buf inp x) start stop of
             None \<Rightarrow> None
           | Some inw \<Rightarrow>
               (case subslice (mem ! c) start stop of
                  None \<Rightarrow> None
                | Some oldw \<Rightarrow>
                    (case sliceXor inw oldw of
                       None \<Rightarrow> None
                     | Some oldin \<Rightarrow>
                         foldO (updateRowsP matrixRows outputs c oldin start stop)
                           [0..<outputCount] (mem[c := putSlice (mem ! c) start oldin])))))"
  unfolding updateColumnP_def updateRowsP_def by simp

lemma subslice_Some:
  assumes "subslice s start stop = Some w"
  shows "start \<le> stop" "stop \<le> cap s" "w = window start stop (fullOf s)"
    "length w = stop - start"
proof -
  show a: "start \<le> stop" "stop \<le> cap s" "w = window start stop (fullOf s)"
    using assms by (auto simp: subslice_def window_def split: if_splits)
  have "length (fullOf s) = cap s" by (cases s) simp_all
  then show "length w = stop - start" using a by (simp add: window_def)
qed

lemma bytesOf_putSlice:
  "bytesOf (putSlice s start zs) = take (len s) (splice start zs (fullOf s))"
  by (cases s) (simp_all add: splice_def Let_def)

lemma length_splice:
  "start + length zs \<le> length V \<Longrightarrow> length (splice start zs V) = length V"
  by (simp add: splice_def)

lemma len_putSlice:
  assumes "start + length zs \<le> cap s"
  shows "len (putSlice s start zs) = len s"
proof -
  have "length (fullOf s) = cap s" "len s \<le> cap s" by (cases s; simp)+
  then show ?thesis
    using assms length_splice [of start zs "fullOf s"]
    by (simp add: len_def bytesOf_putSlice)
qed

lemma updateRowsP_frame:
  assumes "foldO (updateRowsP matrixRows outputs c oldin start stop) [0..<j] mem = Some mem'"
  shows "length mem' = length mem \<and>
         (\<forall>i<length mem. (\<forall>k<j. outputs ! k \<noteq> i) \<longrightarrow> mem' ! i = mem ! i)"
  using assms
proof (induction j arbitrary: mem')
  case 0
  then show ?case by simp
next
  case (Suc j)
  then obtain mem1 where
    run: "foldO (updateRowsP matrixRows outputs c oldin start stop) [0..<j] mem = Some mem1"
    and last: "updateRowsP matrixRows outputs c oldin start stop j mem1 = Some mem'"
    by (auto simp: foldO_append split: option.splits)
  have ih: "length mem1 = length mem"
    "\<forall>i<length mem. (\<forall>k<j. outputs ! k \<noteq> i) \<longrightarrow> mem1 ! i = mem ! i"
    using Suc.IH [OF run] by auto
  obtain bs where mem': "mem' = mem1[outputs ! j := putSlice (mem1 ! (outputs ! j)) start bs]"
    using last by (auto simp: updateRowsP_def split: option.splits)
  show ?case
  proof (intro conjI allI impI)
    show "length mem' = length mem" using mem' ih by simp
  next
    fix i assume i: "i < length mem" "\<forall>k<Suc j. outputs ! k \<noteq> i"
    then have "outputs ! j \<noteq> i" "\<forall>k<j. outputs ! k \<noteq> i" by auto
    then show "mem' ! i = mem ! i" using mem' ih i(1) by simp
  qed
qed

text \<open>What one column of a goroutine does to the data shards: the bytes \<open>[start, stop)\<close>
  of the backing array of the old shard are XORed with those of the new shard.\<close>

definition xorWindow :: "shard \<Rightarrow> shard \<Rightarrow> nat \<Rightarrow> nat \<Rightarrow> shard" where
  "xorWindow new old start stop =
     putSlice old start
       (map2 (XOR) (window start stop (fullOf new)) (window start stop (fullOf old)))"

lemma updateColumnP_frame:
  assumes run: "updateColumnP matrixRows newinputs outputs outputCount start stop c mem = Some mem'"
    and c: "c < length mem"
    and outs: "\<forall>k<outputCount. d \<le> outputs ! k" and cd: "c < d"
  shows "length mem' = length mem"
    and "\<forall>i<d. i \<noteq> c \<longrightarrow> i < length mem \<longrightarrow> mem' ! i = mem ! i"
    and "newinputs ! c = NilShard \<Longrightarrow> mem' = mem"
    and "newinputs ! c \<noteq> NilShard \<Longrightarrow>
           start \<le> stop \<and> stop \<le> cap (newinputs ! c) \<and> stop \<le> cap (mem ! c) \<and>
           mem' ! c = xorWindow (newinputs ! c) (mem ! c) start stop"
proof -
  show nil: "newinputs ! c = NilShard \<Longrightarrow> mem' = mem"
    using run by (simp add: updateColumnP_alt)
  have main: "length mem' = length mem \<and>
      (\<forall>i<d. i \<noteq> c \<longrightarrow> i < length mem \<longrightarrow> mem' ! i = mem ! i) \<and>
      (newinputs ! c \<noteq> NilShard \<longrightarrow>
           start \<le> stop \<and> stop \<le> cap (newinputs ! c) \<and> stop \<le> cap (mem ! c) \<and>
           mem' ! c = xorWindow (newinputs ! c) (mem ! c) start stop)"
  proof (cases "newinputs ! c")
    case NilShard
    then show ?thesis using nil by simp
  next
    case (Buf inp x)
    then obtain inw oldw oldin where
      s1: "subslice (Buf inp x) start stop = Some inw"
      and s2: "subslice (mem ! c) start stop = Some oldw"
      and sx: "sliceXor inw oldw = Some oldin"
      and fo: "foldO (updateRowsP matrixRows outputs c oldin start stop) [0..<outputCount]
                 (mem[c := putSlice (mem ! c) start oldin]) = Some mem'"
      using run by (auto simp: updateColumnP_alt split: option.splits)
    note i1 = subslice_Some [OF s1] and i2 = subslice_Some [OF s2]
    have oldin: "oldin = map2 (XOR) inw oldw"
      using sx i1(4) i2(4) by (auto simp: sliceXor_def split: if_splits)
    let ?mem0 = "mem[c := putSlice (mem ! c) start oldin]"
    have fr: "length mem' = length ?mem0"
      "\<forall>i<length ?mem0. (\<forall>k<outputCount. outputs ! k \<noteq> i) \<longrightarrow> mem' ! i = ?mem0 ! i"
      using updateRowsP_frame [OF fo] by auto
    have below: "i < d \<Longrightarrow> \<forall>k<outputCount. outputs ! k \<noteq> i" for i
      using outs by fastforce
    have atc: "mem' ! c = putSlice (mem ! c) start oldin"
      using fr(2) below [OF cd] c by simp
    then have "mem' ! c = xorWindow (newinputs ! c) (mem ! c) start stop"
      using oldin i1(3) i2(3) Buf by (simp add: xorWindow_def)
    moreover have "\<forall>i<d. i \<noteq> c \<longrightarrow> i < length mem \<longrightarrow> mem' ! i = mem ! i"
      using fr(2) below by simp
    ultimately show ?thesis using fr(1) i1(1,2) i2(2) Buf by simp
  qed
  show "length mem' = length mem"
    and "\<forall>i<d. i \<noteq> c \<longrightarrow> i < length mem \<longrightarrow> mem' ! i = mem ! i"
    and "newinputs ! c \<noteq> NilShard \<Longrightarrow>
           start \<le> stop \<and> stop \<le> cap (newinputs ! c) \<and> stop \<le> cap (mem ! c) \<and>
           mem' ! c = xorWindow (newinputs ! c) (mem ! c) start stop"
    using main by blast+
qed

text \<open>What the data shards hold after one goroutine.\<close>

lemma goroutine_data:
  assumes run: "foldO (updateColumnP matrixRows newinputs outputs outputCount start stop)
                  [0..<j] mem = Some mem'"
    and j: "j \<le> d" "d \<le> length mem"
    and outs: "\<forall>k<outputCount. d \<le> outputs ! k"
  shows "length mem' = length mem \<and>
         (\<forall>c<d. j \<le> c \<longrightarrow> mem' ! c = mem ! c) \<and>
         (\<forall>c<j. (newinputs ! c = NilShard \<longrightarrow> mem' ! c = mem ! c) \<and>
                 (newinputs ! c \<noteq> NilShard \<longrightarrow>
                    start \<le> stop \<and> stop \<le> cap (newinputs ! c) \<and> stop \<le> cap (mem ! c) \<and>
                    mem' ! c = xorWindow (newinputs ! c) (mem ! c) start stop))"
  using run j(1)
proof (induction j arbitrary: mem')
  case 0
  then show ?case by simp
next
  case (Suc j)
  then obtain mem1 where
    run1: "foldO (updateColumnP matrixRows newinputs outputs outputCount start stop)
             [0..<j] mem = Some mem1"
    and step: "updateColumnP matrixRows newinputs outputs outputCount start stop j mem1 = Some mem'"
    by (auto simp: foldO_append split: option.splits)
  have jd: "j < d" using Suc.prems by simp
  have ih: "length mem1 = length mem" "\<forall>c<d. j \<le> c \<longrightarrow> mem1 ! c = mem ! c"
    "\<forall>c<j. (newinputs ! c = NilShard \<longrightarrow> mem1 ! c = mem ! c) \<and>
                 (newinputs ! c \<noteq> NilShard \<longrightarrow>
                    start \<le> stop \<and> stop \<le> cap (newinputs ! c) \<and> stop \<le> cap (mem ! c) \<and>
                    mem1 ! c = xorWindow (newinputs ! c) (mem ! c) start stop)"
    using Suc.IH [OF run1] jd by auto
  have jl: "j < length mem1" using jd j(2) ih(1) by simp
  note fr = updateColumnP_frame [OF step jl outs jd]
  have same_j: "mem1 ! j = mem ! j" using ih(2) jd by simp
  show ?case
  proof (intro conjI allI impI)
    show "length mem' = length mem" using fr(1) ih(1) by simp
  next
    fix c assume "c < d" "Suc j \<le> c"
    then show "mem' ! c = mem ! c" using fr(2) ih(1,2) j(2) by simp
  next
    fix c assume c: "c < Suc j" "newinputs ! c = NilShard"
    show "mem' ! c = mem ! c"
    proof (cases "c = j")
      case True
      then show ?thesis using fr(3) c same_j by simp
    next
      case False
      then have "c < j" using c by simp
      then show ?thesis using fr(2) ih(1,3) c jd j(2) False by simp
    qed
  next
    fix c assume c: "c < Suc j" "newinputs ! c \<noteq> NilShard"
    have "start \<le> stop \<and> stop \<le> cap (newinputs ! c) \<and> stop \<le> cap (mem ! c) \<and>
          mem' ! c = xorWindow (newinputs ! c) (mem ! c) start stop"
    proof (cases "c = j")
      case True
      then show ?thesis using fr(4) c same_j by simp
    next
      case False
      then have cj: "c < j" using c by simp
      then have "mem' ! c = mem1 ! c" using fr(2) ih(1) jd j(2) False by simp
      then show ?thesis using ih(3) cj c(2) by simp
    qed
    then show "start \<le> stop" and "stop \<le> cap (newinputs ! c)" and "stop \<le> cap (mem ! c)"
      and "mem' ! c = xorWindow (newinputs ! c) (mem ! c) start stop" by simp_all
  qed
qed

subsection \<open>Byte ranges\<close>

text \<open>The list that agrees with \<open>X\<close> before position \<open>p\<close> and with \<open>V\<close> from \<open>p\<close> on: the
  state of a buffer when the goroutines for the bytes before \<open>p\<close> have run.\<close>

definition mixAt :: "nat \<Rightarrow> byte list \<Rightarrow> byte list \<Rightarrow> byte list" where
  "mixAt p X V = take p X @ drop p V"

lemma length_window: "stop \<le> length V \<Longrightarrow> length (window start stop V) = stop - start"
  by (simp add: window_def)

lemma window_append: "stop \<le> length U \<Longrightarrow> window start stop (U @ Z) = window start stop U"
  by (simp add: window_def)

lemma splice_append:
  "start + length zs \<le> length U \<Longrightarrow> splice start zs (U @ Z) = splice start zs U @ Z"
  by (simp add: splice_def)

lemma window_map2:
  "window a b (map2 f U V) = map2 f (window a b U) (window a b V)"
  by (simp add: window_def take_map drop_map take_zip drop_zip)

lemma length_mixAt: "length X = length V \<Longrightarrow> length (mixAt p X V) = length V"
  by (simp add: mixAt_def)

lemma mixAt_0 [simp]: "mixAt 0 X V = V"
  by (simp add: mixAt_def)

lemma mixAt_full: "length X \<le> p \<Longrightarrow> length V \<le> p \<Longrightarrow> mixAt p X V = X"
  by (simp add: mixAt_def)

lemma window_mixAt:
  "length X = length V \<Longrightarrow> a \<le> length V \<Longrightarrow> window a b (mixAt a X V) = window a b V"
  by (simp add: window_def mixAt_def)

lemma splice_mixAt:
  assumes "length X = length V" "a \<le> b" "b \<le> length V"
  shows "splice a (window a b X) (mixAt a X V) = mixAt b X V"
proof -
  have l: "length (window a b X) = b - a" using assms by (simp add: length_window)
  have t: "take a (mixAt a X V) = take a X" using assms by (simp add: mixAt_def)
  have "drop b (mixAt a X V) = drop (b - a) (drop a (mixAt a X V))" using assms by simp
  also have "drop a (mixAt a X V) = drop a V" using assms by (simp add: mixAt_def)
  finally have d: "drop b (mixAt a X V) = drop b V" using assms by simp
  have "take b X = take a X @ window a b X"
    using take_add [of a "b - a" X] assms by (simp add: window_def)
  then show ?thesis using l t d assms by (simp add: splice_def mixAt_def)
qed

lemma fullOf_bytesOf: "\<exists>ys. fullOf s = bytesOf s @ ys"
  by (cases s) simp_all

lemma window_fullOf: "stop \<le> len s \<Longrightarrow> window start stop (fullOf s) = window start stop (bytesOf s)"
  using fullOf_bytesOf [of s] by (auto simp: len_def window_append)

lemma putSlice_putBytes:
  assumes "start + length zs \<le> len s"
  shows "putSlice s start zs = putBytes s (splice start zs (bytesOf s))"
proof (cases s)
  case NilShard
  then show ?thesis by simp
next
  case (Buf xs ys)
  then have "start + length zs \<le> length xs" using assms by simp
  then have e: "splice start zs (xs @ ys) = splice start zs xs @ ys"
    and l: "length (splice start zs xs) = length xs"
    by (simp_all add: splice_append length_splice)
  have "putSlice (Buf xs ys) start zs
      = Buf (take (length xs) (splice start zs (xs @ ys)))
            (drop (length xs) (splice start zs (xs @ ys)))"
    by (simp add: splice_def Let_def)
  also have "\<dots> = Buf (splice start zs xs) ys"
    unfolding e using l by simp
  finally show ?thesis using Buf by simp
qed



subsection \<open>Update and the old data\<close>


text \<open>The encoder \<open>New(2, 1)\<close> with two goroutines and ranges of at least one byte, for
  which shards of two bytes take the goroutine variant, and with a split threshold of
  zero, for which the loop that starts the goroutines does not advance on shards of
  one byte.\<close>

definition enc21P :: reedSolomon where
  "enc21P = enc21\<lparr>o_rs := defaultOptions\<lparr>maxGoroutines := 2, minSplitSize := 1\<rparr>\<rparr>"

definition enc21Z :: reedSolomon where
  "enc21Z = enc21\<lparr>o_rs := defaultOptions\<lparr>maxGoroutines := 2, minSplitSize := 0\<rparr>\<rparr>"

lemma wf_enc21P: "wf_encoder enc21P"
  by (simp add: wf_encoder_def enc21P_def enc21_def)

lemma Update_goroutines_example:
  "updateParityShards enc21P (parity_rs enc21P) [Buf [7, 7] [], NilShard] [2..<3] 1 2
      [Buf [1, 2] [], Buf [3, 4] [], Buf [5, 14] []]
     = updateParityShardsP enc21P (parity_rs enc21P) [Buf [7, 7] [], NilShard] [2..<3] 1 2
         [Buf [1, 2] [], Buf [3, 4] [], Buf [5, 14] []] \<and>
   Update enc21P [Buf [1, 2] [], Buf [3, 4] [], Buf [5, 14] []] [Buf [7, 7] [], NilShard]
     = (None, [Buf [6, 5] [], Buf [3, 4] [], Buf [15, 1] []])"
  by code_simp

lemma Update_zero_range_example:
  "Update enc21Z [Buf [1] [], Buf [3] [], Buf [5] []] [Buf [7] [], NilShard]
     = (Some Panic, [Buf [1] [], Buf [3] [], Buf [5] []])"
  by code_simp




lemma dot_update:
  "j < length u \<Longrightarrow> j < length v \<Longrightarrow>
     dot u (v[j := y]) = galAdd (dot u v) (galMultiply (u ! j) (galAdd (v ! j) y))"
proof (induction u arbitrary: v j)
  case Nil
  then show ?case by simp
next
  case (Cons a u)
  then obtain x v' where v: "v = x # v'" by (cases v) auto
  show ?case
  proof (cases j)
    case 0
    then show ?thesis using v by (simp add: galMultiply_galAdd_right galAdd_ac)
  next
    case (Suc j')
    then show ?thesis using v Cons by (simp add: galAdd_ac)
  qed
qed

lemma column_update:
  "j < length B \<Longrightarrow> column (B[j := x]) b = (column B b)[j := x ! b]"
  by (simp add: column_def map_update)

lemma updateRows_loop:
  assumes dist: "distinct outs"
    and rng: "\<forall>k<length outs. outs ! k < length mem"
    and lens: "\<forall>k<length outs. len (mem ! (outs ! k)) = length oldin"
    and j: "j \<le> length outs"
  shows "\<exists>mem2. foldO (updateRows matrixRows outs c oldin) [0..<j] mem = Some mem2 \<and>
           coded mem outs
             (\<lambda>k. if k < j
                   then map2 (\<lambda>i x. galMultiply (matrixRows ! k ! c) i XOR x) oldin
                          (bytesOf (mem ! (outs ! k)))
                   else bytesOf (mem ! (outs ! k))) mem2"
  using j
proof (induction j)
  case 0
  then show ?case using coded_refl [of mem outs] by simp
next
  case (Suc j)
  let ?new = "\<lambda>k. map2 (\<lambda>i x. galMultiply (matrixRows ! k ! c) i XOR x) oldin
                          (bytesOf (mem ! (outs ! k)))"
  from Suc obtain mem2 where
    run: "foldO (updateRows matrixRows outs c oldin) [0..<j] mem = Some mem2"
    and c2: "coded mem outs (\<lambda>k. if k < j then ?new k else bytesOf (mem ! (outs ! k))) mem2"
    by auto
  have jl: "j < length outs" using Suc.prems by simp
  have oj: "outs ! j < length mem" using rng jl by simp
  have len2: "length mem2 = length mem" using c2 by (rule coded_length)
  have at_j: "mem2 ! (outs ! j) = mem ! (outs ! j)"
    using coded_nth [OF c2 jl] by simp
  have lj: "length oldin = length (bytesOf (mem ! (outs ! j)))"
    using lens jl by (simp add: len_def)
  let ?mem3 = "mem2[outs ! j := putBytes (mem ! (outs ! j)) (?new j)]"
  have step: "updateRows matrixRows outs c oldin j mem2 = Some ?mem3"
    using at_j lj by (simp add: updateRows_def galMulSliceXor_same_length)
  have "foldO (updateRows matrixRows outs c oldin) [0..<Suc j] mem = Some ?mem3"
    using run step by (simp add: foldO_append)
  moreover have "coded mem outs
      (\<lambda>k. if k < Suc j then ?new k else bytesOf (mem ! (outs ! k))) ?mem3"
    unfolding coded_def
  proof (intro conjI allI impI)
    show "length ?mem3 = length mem" using len2 by simp
  next
    fix i assume i: "i < length mem" "i \<notin> set outs"
    then have "i \<noteq> outs ! j" using jl by auto
    then show "?mem3 ! i = mem ! i" using coded_other [OF c2 i] by simp
  next
    fix k assume k: "k < length outs"
    show "?mem3 ! (outs ! k) = putBytes (mem ! (outs ! k))
        (if k < Suc j then ?new k else bytesOf (mem ! (outs ! k)))"
    proof (cases "k = j")
      case True
      then show ?thesis using oj len2 by simp
    next
      case False
      then have "outs ! k \<noteq> outs ! j"
        using dist k jl by (simp add: nth_eq_iff_index_eq)
      then show ?thesis using coded_nth [OF c2 k] False by (auto simp: less_Suc_eq)
    qed
  qed
  ultimately show ?case by blast
qed

text \<open>The shard vector whose data shards are the new ones where given and the old
  ones elsewhere.\<close>

definition newShards :: "shard list \<Rightarrow> shard list \<Rightarrow> shard list" where
  "newShards shards newDatashards =
     map (\<lambda>i. if i < length newDatashards \<and> newDatashards ! i \<noteq> NilShard
               then newDatashards ! i else shards ! i) [0..<length shards]"

text \<open>The data, as bytes, once the columns below \<open>j\<close> have taken their new value.\<close>

definition dataAfter :: "nat \<Rightarrow> nat \<Rightarrow> shard list \<Rightarrow> shard list \<Rightarrow> matrix" where
  "dataAfter d j shards newDatashards =
     map (\<lambda>c. if c < j \<and> newDatashards ! c \<noteq> NilShard
               then bytesOf (newDatashards ! c) else bytesOf (shards ! c)) [0..<d]"

lemma dataAfter_Suc_Nil:
  "newDatashards ! j = NilShard \<Longrightarrow>
     dataAfter d (Suc j) shards newDatashards = dataAfter d j shards newDatashards"
  by (auto simp: dataAfter_def less_Suc_eq)

lemma dataAfter_Suc_Buf:
  assumes "newDatashards ! j = Buf inp x" "j < d"
  shows "dataAfter d (Suc j) shards newDatashards = (dataAfter d j shards newDatashards)[j := inp]"
  by (rule nth_equalityI) (use assms in \<open>auto simp: dataAfter_def less_Suc_eq nth_list_update\<close>)

lemma updateParityShards_exact:
  assumes wf: "wf_encoder r"
    and len: "length shards = Shards r"
    and n: "\<forall>s\<in>set shards. len s = n"
    and new: "length newDatashards = DataShards r"
      "\<forall>s\<in>set newDatashards. s = NilShard \<or> len s = n"
    and cons: "\<forall>k<ParityShards r. bytesOf (shards ! (DataShards r + k))
        = rowTimes (parity_rs r ! k) (dataAfter (DataShards r) 0 shards newDatashards) n"
    and j: "j \<le> DataShards r"
  shows "\<exists>mem. foldO (updateColumn (parity_rs r) newDatashards [DataShards r..<length shards]
                   (ParityShards r)) [0..<j] shards = Some mem \<and>
           length mem = length shards \<and>
           (\<forall>c<DataShards r. j \<le> c \<longrightarrow> mem ! c = shards ! c) \<and>
           (\<forall>k<ParityShards r. mem ! (DataShards r + k) = putBytes (shards ! (DataShards r + k))
               (rowTimes (parity_rs r ! k) (dataAfter (DataShards r) j shards newDatashards) n))"
  using j
proof (induction j)
  case 0
  have "\<forall>k<ParityShards r. shards ! (DataShards r + k) = putBytes (shards ! (DataShards r + k))
      (rowTimes (parity_rs r ! k) (dataAfter (DataShards r) 0 shards newDatashards) n)"
  proof (intro allI impI)
    fix k assume "k < ParityShards r"
    then have "rowTimes (parity_rs r ! k) (dataAfter (DataShards r) 0 shards newDatashards) n
        = bytesOf (shards ! (DataShards r + k))"
      using cons by simp
    then show "shards ! (DataShards r + k) = putBytes (shards ! (DataShards r + k))
      (rowTimes (parity_rs r ! k) (dataAfter (DataShards r) 0 shards newDatashards) n)"
      by simp
  qed
  then show ?case by simp
next
  case (Suc j)
  note w = wf_encoderD [OF wf]
  let ?d = "DataShards r" and ?p = "ParityShards r"
  let ?outs = "[?d..<length shards]"
  let ?col = "updateColumn (parity_rs r) newDatashards ?outs ?p"
  from Suc obtain mem where run: "foldO ?col [0..<j] shards = Some mem"
    and lm: "length mem = length shards"
    and keep: "\<forall>c<?d. j \<le> c \<longrightarrow> mem ! c = shards ! c"
    and par: "\<forall>k<?p. mem ! (?d + k) = putBytes (shards ! (?d + k))
               (rowTimes (parity_rs r ! k) (dataAfter ?d j shards newDatashards) n)"
    by auto
  have jd: "j < ?d" using Suc.prems by simp
  have lo: "length ?outs = ?p" using len w by simp
  have ok: "\<And>k. k < ?p \<Longrightarrow> ?outs ! k = ?d + k" using len w by simp
  show ?case
  proof (cases "newDatashards ! j")
    case NilShard
    then have "?col j mem = Some mem" by (simp add: updateColumn_alt)
    then have "foldO ?col [0..<Suc j] shards = Some mem"
      using run by (simp add: foldO_append)
    moreover have "\<forall>c<?d. Suc j \<le> c \<longrightarrow> mem ! c = shards ! c" using keep by simp
    ultimately show ?thesis
      using lm par dataAfter_Suc_Nil [OF NilShard] by auto
  next
    case (Buf inp x)
    have "newDatashards ! j \<in> set newDatashards" using jd new(1) by simp
    then have linp: "length inp = n" using new(2) Buf by fastforce
    have oldj: "mem ! j = shards ! j" using keep jd by simp
    have lold: "length (bytesOf (shards ! j)) = n"
      using n jd len w by (simp add: len_def [symmetric])
    let ?delta = "map2 (XOR) inp (bytesOf (shards ! j))"
    have sx: "sliceXor inp (bytesOf (mem ! j)) = Some ?delta"
      using oldj linp lold by (simp add: sliceXor_def)
    let ?mem0 = "mem[j := putBytes (mem ! j) ?delta]"
    have ldelta: "length ?delta = n" using linp lold by simp
    have "\<exists>mem2. foldO (updateRows (parity_rs r) ?outs j ?delta) [0..<length ?outs] ?mem0 = Some mem2 \<and>
           coded ?mem0 ?outs
             (\<lambda>k. if k < length ?outs
                   then map2 (\<lambda>i x. galMultiply (parity_rs r ! k ! j) i XOR x) ?delta
                          (bytesOf (?mem0 ! (?outs ! k)))
                   else bytesOf (?mem0 ! (?outs ! k))) mem2"
    proof (rule updateRows_loop)
      show "distinct ?outs" by simp
      show "\<forall>k<length ?outs. ?outs ! k < length ?mem0"
        using lm by (simp add: less_diff_conv add.commute)
      show "\<forall>k<length ?outs. len (?mem0 ! (?outs ! k)) = length ?delta"
      proof (intro allI impI)
        fix k assume "k < length ?outs"
        then have k: "k < ?p" using lo by simp
        have "?mem0 ! (?d + k) = mem ! (?d + k)" using jd by simp
        moreover have "len (shards ! (?d + k)) = n" using n k len w by simp
        ultimately show "len (?mem0 ! (?outs ! k)) = length ?delta"
          using par k ok ldelta by (simp add: len_putBytes)
      qed
      show "length ?outs \<le> length ?outs" by simp
    qed
    then obtain mem2 where
      run2: "foldO (updateRows (parity_rs r) ?outs j ?delta) [0..<?p] ?mem0 = Some mem2"
      and c2: "coded ?mem0 ?outs
             (\<lambda>k. if k < length ?outs
                   then map2 (\<lambda>i x. galMultiply (parity_rs r ! k ! j) i XOR x) ?delta
                          (bytesOf (?mem0 ! (?outs ! k)))
                   else bytesOf (?mem0 ! (?outs ! k))) mem2"
      using lo by auto
    have "?col j mem = Some mem2"
      using Buf sx run2 by (simp add: updateColumn_alt)
    then have r2: "foldO ?col [0..<Suc j] shards = Some mem2"
      using run by (simp add: foldO_append)
    have l2: "length mem2 = length shards" using coded_length [OF c2] lm by simp
    have keep2: "\<forall>c<?d. Suc j \<le> c \<longrightarrow> mem2 ! c = shards ! c"
    proof (intro allI impI)
      fix c assume c: "c < ?d" "Suc j \<le> c"
      then have "c < length ?mem0" "c \<notin> set ?outs" using lm len w by simp_all
      then have "mem2 ! c = ?mem0 ! c" using coded_other [OF c2] by simp
      then show "mem2 ! c = shards ! c" using keep c by simp
    qed
    have par2: "\<forall>k<?p. mem2 ! (?d + k) = putBytes (shards ! (?d + k))
               (rowTimes (parity_rs r ! k) (dataAfter ?d (Suc j) shards newDatashards) n)"
    proof (intro allI impI)
      fix k assume k: "k < ?p"
      let ?row = "parity_rs r ! k"
      let ?B = "dataAfter ?d j shards newDatashards"
      have kl: "k < length ?outs" using k lo by simp
      have m0: "?mem0 ! (?d + k) = putBytes (shards ! (?d + k)) (rowTimes ?row ?B n)"
        using par k jd by simp
      have lk: "len (shards ! (?d + k)) = n" using n k len w by simp
      have b0: "bytesOf (?mem0 ! (?d + k)) = rowTimes ?row ?B n"
        using m0 lk by (simp add: bytesOf_putBytes)
      have lrow: "length ?row = ?d" using w k by simp
      have lB: "length ?B = ?d" by (simp add: dataAfter_def)
      have Bj: "?B ! j = bytesOf (shards ! j)" using jd by (simp add: dataAfter_def)
      have "map2 (\<lambda>i x. galMultiply (?row ! j) i XOR x) ?delta (rowTimes ?row ?B n)
              = rowTimes ?row (?B[j := inp]) n"
      proof (rule nth_equalityI)
        show "length (map2 (\<lambda>i x. galMultiply (?row ! j) i XOR x) ?delta (rowTimes ?row ?B n))
                = length (rowTimes ?row (?B[j := inp]) n)"
          using ldelta by simp
      next
        fix b assume "b < length (map2 (\<lambda>i x. galMultiply (?row ! j) i XOR x) ?delta (rowTimes ?row ?B n))"
        then have b: "b < n" using ldelta by simp
        have "dot ?row (column (?B[j := inp]) b)
                = galAdd (dot ?row (column ?B b))
                    (galMultiply (?row ! j) (galAdd (column ?B b ! j) (inp ! b)))"
          using jd lrow lB by (simp add: column_update dot_update)
        moreover have "column ?B b ! j = bytesOf (shards ! j) ! b"
          using jd lB Bj by (simp add: column_def)
        ultimately show "map2 (\<lambda>i x. galMultiply (?row ! j) i XOR x) ?delta (rowTimes ?row ?B n) ! b
                = rowTimes ?row (?B[j := inp]) n ! b"
          using b linp lold ldelta by (simp add: galAdd_def xor.commute)
      qed
      then have "mem2 ! (?d + k) = putBytes (?mem0 ! (?d + k)) (rowTimes ?row (?B[j := inp]) n)"
        using coded_nth [OF c2 kl] ok [OF k] kl b0 by simp
      then show "mem2 ! (?d + k) = putBytes (shards ! (?d + k))
               (rowTimes ?row (dataAfter ?d (Suc j) shards newDatashards) n)"
        using m0 dataAfter_Suc_Buf [OF Buf jd] by simp
    qed
    show ?thesis using r2 l2 keep2 par2 by blast
  qed
qed

subsection \<open>The goroutine variant on shards of one length\<close>

lemma rowTimes_update_column:
  assumes lrow: "length row = length B" and j: "j < length B"
    and linp: "length inp = n" and lold: "length (B ! j) = n"
  shows "map2 (\<lambda>i x. galMultiply (row ! j) i XOR x) (map2 (XOR) inp (B ! j)) (rowTimes row B n)
           = rowTimes row (B[j := inp]) n"
proof (rule nth_equalityI)
  show "length (map2 (\<lambda>i x. galMultiply (row ! j) i XOR x) (map2 (XOR) inp (B ! j))
                  (rowTimes row B n)) = length (rowTimes row (B[j := inp]) n)"
    using linp lold by simp
next
  fix b assume "b < length (map2 (\<lambda>i x. galMultiply (row ! j) i XOR x)
                              (map2 (XOR) inp (B ! j)) (rowTimes row B n))"
  then have b: "b < n" using linp lold by simp
  have "dot row (column (B[j := inp]) b)
          = galAdd (dot row (column B b))
              (galMultiply (row ! j) (galAdd (column B b ! j) (inp ! b)))"
    using j lrow by (simp add: column_update dot_update)
  moreover have "column B b ! j = B ! j ! b"
    using j by (simp add: column_def)
  ultimately show "map2 (\<lambda>i x. galMultiply (row ! j) i XOR x) (map2 (XOR) inp (B ! j))
                     (rowTimes row B n) ! b = rowTimes row (B[j := inp]) n ! b"
    using b linp lold by (simp add: galAdd_def xor.commute)
qed

lemma splice_window_id: "a \<le> b \<Longrightarrow> b \<le> length V \<Longrightarrow> splice a (window a b V) V = V"
proof -
  assume ab: "a \<le> b" "b \<le> length V"
  have "drop a V = take (b - a) (drop a V) @ drop (b - a) (drop a V)"
    by (simp only: append_take_drop_id)
  then have "drop a V = window a b V @ drop b V" using ab by (simp add: window_def)
  then have "take a V @ window a b V @ drop b V = take a V @ drop a V" by simp
  then have "V = take a V @ window a b V @ drop b V" by simp
  moreover have "length (window a b V) = b - a" using ab by (simp add: length_window)
  ultimately show ?thesis using ab by (simp add: splice_def)
qed

lemma window_splice:
  "length zs = b - a \<Longrightarrow> a \<le> b \<Longrightarrow> b \<le> length V \<Longrightarrow> window a b (splice a zs V) = zs"
  by (simp add: window_def splice_def)

lemma splice_splice:
  "length zs = length zs' \<Longrightarrow> a + length zs \<le> length V \<Longrightarrow>
     splice a zs' (splice a zs V) = splice a zs' V"
  by (simp add: splice_def)

lemma drop_splice:
  "length zs = b - a \<Longrightarrow> a \<le> b \<Longrightarrow> b \<le> length V \<Longrightarrow> drop b (splice a zs V) = drop b V"
  by (simp add: splice_def)

lemma subslice_len:
  "start \<le> stop \<Longrightarrow> stop \<le> len s \<Longrightarrow>
     subslice s start stop = Some (window start stop (bytesOf s))"
proof -
  assume a: "start \<le> stop" "stop \<le> len s"
  have "len s \<le> cap s" by (cases s) simp_all
  then show ?thesis using a window_fullOf [OF a(2)] by (simp add: subslice_def window_def)
qed

text \<open>The loop over the parity rows in a goroutine, on outputs of length \<open>n\<close>.\<close>

lemma updateRowsP_loop:
  assumes dist: "distinct outs"
    and rng: "\<forall>k<length outs. outs ! k < length mem"
    and lens: "\<forall>k<length outs. len (mem ! (outs ! k)) = n"
    and ab: "a \<le> b" "b \<le> n" and lo: "length oldin = b - a"
    and j: "j \<le> length outs"
  shows "\<exists>mem2. foldO (updateRowsP matrixRows outs c oldin a b) [0..<j] mem = Some mem2 \<and>
           coded mem outs
             (\<lambda>k. if k < j
                   then splice a (map2 (\<lambda>i x. galMultiply (matrixRows ! k ! c) i XOR x) oldin
                                    (window a b (bytesOf (mem ! (outs ! k)))))
                          (bytesOf (mem ! (outs ! k)))
                   else bytesOf (mem ! (outs ! k))) mem2"
  using j
proof (induction j)
  case 0
  then show ?case using coded_refl [of mem outs] by simp
next
  case (Suc j)
  let ?new = "\<lambda>k. splice a (map2 (\<lambda>i x. galMultiply (matrixRows ! k ! c) i XOR x) oldin
                                    (window a b (bytesOf (mem ! (outs ! k)))))
                          (bytesOf (mem ! (outs ! k)))"
  from Suc obtain mem2 where
    run: "foldO (updateRowsP matrixRows outs c oldin a b) [0..<j] mem = Some mem2"
    and c2: "coded mem outs (\<lambda>k. if k < j then ?new k else bytesOf (mem ! (outs ! k))) mem2"
    by auto
  have jl: "j < length outs" using Suc.prems by simp
  have oj: "outs ! j < length mem" using rng jl by simp
  have len2: "length mem2 = length mem" using c2 by (rule coded_length)
  have at_j: "mem2 ! (outs ! j) = mem ! (outs ! j)"
    using coded_nth [OF c2 jl] by simp
  let ?s = "mem ! (outs ! j)"
  have ls: "len ?s = n" using lens jl by simp
  have bs: "b \<le> len ?s" using ab ls by simp
  have sub: "subslice ?s a b = Some (window a b (bytesOf ?s))"
    using subslice_len [OF ab(1) bs] .
  have lw: "length (window a b (bytesOf ?s)) = b - a"
    using bs by (simp add: length_window len_def)
  let ?bs = "map2 (\<lambda>i x. galMultiply (matrixRows ! j ! c) i XOR x) oldin
               (window a b (bytesOf ?s))"
  have mul: "galMulSliceXor (matrixRows ! j ! c) oldin (window a b (bytesOf ?s)) = Some ?bs"
    using lo lw by (simp add: galMulSliceXor_same_length)
  have lbs: "length ?bs = b - a" using lo lw by simp
  have put: "putSlice ?s a ?bs = putBytes ?s (?new j)"
    using lbs ab(1) bs by (intro putSlice_putBytes) simp
  let ?mem3 = "mem2[outs ! j := putBytes ?s (?new j)]"
  have step: "updateRowsP matrixRows outs c oldin a b j mem2 = Some ?mem3"
    using at_j sub mul put by (simp add: updateRowsP_def)
  have "foldO (updateRowsP matrixRows outs c oldin a b) [0..<Suc j] mem = Some ?mem3"
    using run step by (simp add: foldO_append)
  moreover have "coded mem outs
      (\<lambda>k. if k < Suc j then ?new k else bytesOf (mem ! (outs ! k))) ?mem3"
    unfolding coded_def
  proof (intro conjI allI impI)
    show "length ?mem3 = length mem" using len2 by simp
  next
    fix i assume i: "i < length mem" "i \<notin> set outs"
    then have "i \<noteq> outs ! j" using jl by auto
    then show "?mem3 ! i = mem ! i" using coded_other [OF c2 i] by simp
  next
    fix k assume k: "k < length outs"
    show "?mem3 ! (outs ! k) = putBytes (mem ! (outs ! k))
        (if k < Suc j then ?new k else bytesOf (mem ! (outs ! k)))"
    proof (cases "k = j")
      case True
      then show ?thesis using oj len2 by simp
    next
      case False
      then have "outs ! k \<noteq> outs ! j"
        using dist k jl by (simp add: nth_eq_iff_index_eq)
      then show ?thesis using coded_nth [OF c2 k] False by (auto simp: less_Suc_eq)
    qed
  qed
  ultimately show ?case by blast
qed

text \<open>One goroutine, on shards of length \<open>n\<close> whose bytes \<open>[a, b)\<close> are still those the
  call started with: after the columns below \<open>j\<close>, the bytes \<open>[a, b)\<close> of every parity
  shard are those of the parity of the data in which these columns have their new
  value.\<close>

lemma goroutine_exact:
  assumes wf: "wf_encoder r"
    and len: "length shards = Shards r"
    and n: "\<forall>s\<in>set shards. len s = n"
    and new: "length newDatashards = DataShards r"
      "\<forall>s\<in>set newDatashards. s = NilShard \<or> len s = n"
    and ab: "a \<le> b" "b \<le> n"
    and m0: "length mem0 = length shards"
    and data0: "\<forall>c<DataShards r. len (mem0 ! c) = n \<and>
        window a b (bytesOf (mem0 ! c)) = window a b (bytesOf (shards ! c))"
    and par0: "\<forall>k<ParityShards r. len (mem0 ! (DataShards r + k)) = n \<and>
        window a b (bytesOf (mem0 ! (DataShards r + k)))
          = window a b (rowTimes (parity_rs r ! k)
                          (dataAfter (DataShards r) 0 shards newDatashards) n)"
    and j: "j \<le> DataShards r"
  shows "\<exists>mem. foldO (updateColumnP (parity_rs r) newDatashards [DataShards r..<length shards]
                   (ParityShards r) a b) [0..<j] mem0 = Some mem \<and>
           length mem = length shards \<and>
           (\<forall>c<DataShards r. j \<le> c \<longrightarrow> mem ! c = mem0 ! c) \<and>
           (\<forall>k<ParityShards r. mem ! (DataShards r + k) = putBytes (mem0 ! (DataShards r + k))
               (splice a (window a b (rowTimes (parity_rs r ! k)
                                        (dataAfter (DataShards r) j shards newDatashards) n))
                  (bytesOf (mem0 ! (DataShards r + k)))))"
  using j
proof (induction j)
  case 0
  have "\<forall>k<ParityShards r. mem0 ! (DataShards r + k) = putBytes (mem0 ! (DataShards r + k))
      (splice a (window a b (rowTimes (parity_rs r ! k)
                               (dataAfter (DataShards r) 0 shards newDatashards) n))
         (bytesOf (mem0 ! (DataShards r + k))))"
  proof (intro allI impI)
    fix k assume k: "k < ParityShards r"
    let ?V = "bytesOf (mem0 ! (DataShards r + k))"
    have "length ?V = n" using par0 k by (simp add: len_def)
    then have "splice a (window a b ?V) ?V = ?V" using ab by (intro splice_window_id) simp_all
    then show "mem0 ! (DataShards r + k) = putBytes (mem0 ! (DataShards r + k))
      (splice a (window a b (rowTimes (parity_rs r ! k)
                               (dataAfter (DataShards r) 0 shards newDatashards) n)) ?V)"
      using par0 k by simp
  qed
  then show ?case using m0 by simp
next
  case (Suc j)
  note w = wf_encoderD [OF wf]
  let ?d = "DataShards r" and ?p = "ParityShards r"
  let ?outs = "[?d..<length shards]"
  let ?col = "updateColumnP (parity_rs r) newDatashards ?outs ?p a b"
  let ?R = "\<lambda>k j. rowTimes (parity_rs r ! k) (dataAfter ?d j shards newDatashards) n"
  from Suc obtain mem where run: "foldO ?col [0..<j] mem0 = Some mem"
    and lm: "length mem = length shards"
    and keep: "\<forall>c<?d. j \<le> c \<longrightarrow> mem ! c = mem0 ! c"
    and par: "\<forall>k<?p. mem ! (?d + k) = putBytes (mem0 ! (?d + k))
               (splice a (window a b (?R k j)) (bytesOf (mem0 ! (?d + k))))"
    by auto
  have jd: "j < ?d" using Suc.prems by simp
  have lo: "length ?outs = ?p" using len w by simp
  have ok: "\<And>k. k < ?p \<Longrightarrow> ?outs ! k = ?d + k" using len w by simp
  have lR: "\<And>k j. length (?R k j) = n" by (simp add: rowTimes_def)
  have lV0: "\<And>k. k < ?p \<Longrightarrow> length (bytesOf (mem0 ! (?d + k))) = n"
    using par0 by (simp add: len_def)
  have lw: "\<And>k j. length (window a b (?R k j)) = b - a"
    using lR ab by (simp add: length_window)
  have lsp: "\<And>k j. k < ?p \<Longrightarrow>
      length (splice a (window a b (?R k j)) (bytesOf (mem0 ! (?d + k)))) = n"
    using lV0 lw ab by (simp add: length_splice)
  have bk: "\<And>k. k < ?p \<Longrightarrow> bytesOf (mem ! (?d + k))
      = splice a (window a b (?R k j)) (bytesOf (mem0 ! (?d + k)))"
    using par lsp par0 by (simp add: bytesOf_putBytes)
  show ?case
  proof (cases "newDatashards ! j")
    case NilShard
    then have "?col j mem = Some mem" by (simp add: updateColumnP_alt)
    then have "foldO ?col [0..<Suc j] mem0 = Some mem"
      using run by (simp add: foldO_append)
    moreover have "\<forall>c<?d. Suc j \<le> c \<longrightarrow> mem ! c = mem0 ! c" using keep by simp
    ultimately show ?thesis
      using lm par dataAfter_Suc_Nil [OF NilShard] by auto
  next
    case (Buf inp x)
    have "newDatashards ! j \<in> set newDatashards" using jd new(1) by simp
    then have linp: "length inp = n" using new(2) Buf by fastforce
    have oldj: "mem ! j = mem0 ! j" using keep jd by simp
    let ?old = "bytesOf (shards ! j)"
    have lold: "length ?old = n"
      using n jd len w by (simp add: len_def [symmetric])
    have lmj: "len (mem ! j) = n" and wj: "window a b (bytesOf (mem ! j)) = window a b ?old"
      using data0 jd oldj by simp_all
    let ?delta = "map2 (XOR) inp ?old"
    let ?dw = "window a b ?delta"
    have ldelta: "length ?delta = n" using linp lold by simp
    have ldw: "length ?dw = b - a" using ldelta ab by (simp add: length_window)
    have s1: "subslice (Buf inp x) a b = Some (window a b inp)"
      using subslice_len [of a b "Buf inp x"] ab linp by simp
    have s2: "subslice (mem ! j) a b = Some (window a b ?old)"
      using subslice_len [of a b "mem ! j"] ab lmj wj by simp
    have lwi: "length (window a b inp) = b - a" "length (window a b ?old) = b - a"
      using linp lold ab by (simp_all add: length_window)
    have sx: "sliceXor (window a b inp) (window a b ?old) = Some ?dw"
      using lwi by (simp add: sliceXor_def window_map2)
    let ?mem0 = "mem[j := putSlice (mem ! j) a ?dw]"
    have "\<exists>mem2. foldO (updateRowsP (parity_rs r) ?outs j ?dw a b) [0..<length ?outs] ?mem0
                     = Some mem2 \<and>
           coded ?mem0 ?outs
             (\<lambda>k. if k < length ?outs
                   then splice a (map2 (\<lambda>i x. galMultiply (parity_rs r ! k ! j) i XOR x) ?dw
                                    (window a b (bytesOf (?mem0 ! (?outs ! k)))))
                          (bytesOf (?mem0 ! (?outs ! k)))
                   else bytesOf (?mem0 ! (?outs ! k))) mem2"
    proof (rule updateRowsP_loop [where n = n])
      show "distinct ?outs" by simp
      show "\<forall>k<length ?outs. ?outs ! k < length ?mem0"
        using lm by (simp add: less_diff_conv add.commute)
      show "\<forall>k<length ?outs. len (?mem0 ! (?outs ! k)) = n"
      proof (intro allI impI)
        fix k assume "k < length ?outs"
        then have k: "k < ?p" using lo by simp
        have "?mem0 ! (?d + k) = mem ! (?d + k)" using jd by simp
        then show "len (?mem0 ! (?outs ! k)) = n"
          using bk [OF k] lsp [OF k] ok [OF k] by (simp add: len_def)
      qed
      show "a \<le> b" "b \<le> n" using ab by simp_all
      show "length ?dw = b - a" using ldw .
      show "length ?outs \<le> length ?outs" by simp
    qed
    then obtain mem2 where
      run2: "foldO (updateRowsP (parity_rs r) ?outs j ?dw a b) [0..<?p] ?mem0 = Some mem2"
      and c2: "coded ?mem0 ?outs
             (\<lambda>k. if k < length ?outs
                   then splice a (map2 (\<lambda>i x. galMultiply (parity_rs r ! k ! j) i XOR x) ?dw
                                    (window a b (bytesOf (?mem0 ! (?outs ! k)))))
                          (bytesOf (?mem0 ! (?outs ! k)))
                   else bytesOf (?mem0 ! (?outs ! k))) mem2"
      using lo by auto
    have "?col j mem = Some mem2"
      using Buf s1 s2 sx run2 by (simp add: updateColumnP_alt)
    then have r2: "foldO ?col [0..<Suc j] mem0 = Some mem2"
      using run by (simp add: foldO_append)
    have l2: "length mem2 = length shards" using coded_length [OF c2] lm by simp
    have keep2: "\<forall>c<?d. Suc j \<le> c \<longrightarrow> mem2 ! c = mem0 ! c"
    proof (intro allI impI)
      fix c assume c: "c < ?d" "Suc j \<le> c"
      then have "c < length ?mem0" "c \<notin> set ?outs" using lm len w by simp_all
      then have "mem2 ! c = ?mem0 ! c" using coded_other [OF c2] by simp
      then show "mem2 ! c = mem0 ! c" using keep c by simp
    qed
    have par2: "\<forall>k<?p. mem2 ! (?d + k) = putBytes (mem0 ! (?d + k))
               (splice a (window a b (?R k (Suc j))) (bytesOf (mem0 ! (?d + k))))"
    proof (intro allI impI)
      fix k assume k: "k < ?p"
      let ?row = "parity_rs r ! k"
      let ?B = "dataAfter ?d j shards newDatashards"
      let ?V0 = "bytesOf (mem0 ! (?d + k))"
      have kl: "k < length ?outs" using k lo by simp
      have same: "?mem0 ! (?d + k) = mem ! (?d + k)" using jd by simp
      have b0: "bytesOf (?mem0 ! (?d + k)) = splice a (window a b (?R k j)) ?V0"
        using same bk [OF k] by simp
      have wb: "window a b (bytesOf (?mem0 ! (?d + k))) = window a b (?R k j)"
        unfolding b0 using lw lV0 [OF k] ab by (intro window_splice) simp_all
      have lrow: "length ?row = ?d" using w k by simp
      have lB: "length ?B = ?d" by (simp add: dataAfter_def)
      have Bj: "?B ! j = ?old" using jd by (simp add: dataAfter_def)
      have upd: "map2 (\<lambda>i x. galMultiply (?row ! j) i XOR x) ?delta (?R k j)
              = rowTimes ?row (?B[j := inp]) n"
        using rowTimes_update_column [of ?row ?B j inp n] lrow lB jd linp lold Bj by simp
      have "map2 (\<lambda>i x. galMultiply (?row ! j) i XOR x) ?dw (window a b (?R k j))
              = window a b (rowTimes ?row (?B[j := inp]) n)"
        using upd by (simp add: window_map2 [symmetric])
      then have new: "map2 (\<lambda>i x. galMultiply (?row ! j) i XOR x) ?dw (window a b (?R k j))
              = window a b (?R k (Suc j))"
        using dataAfter_Suc_Buf [OF Buf jd] by simp
      have sp: "splice a (window a b (?R k (Suc j))) (splice a (window a b (?R k j)) ?V0)
              = splice a (window a b (?R k (Suc j))) ?V0"
        using lw lV0 [OF k] ab by (intro splice_splice) simp_all
      have "mem2 ! (?d + k) = putBytes (?mem0 ! (?d + k))
              (splice a (window a b (?R k (Suc j))) (bytesOf (?mem0 ! (?d + k))))"
        using coded_nth [OF c2 kl] ok [OF k] kl wb new by simp
      then show "mem2 ! (?d + k) = putBytes (mem0 ! (?d + k))
               (splice a (window a b (?R k (Suc j))) ?V0)"
        unfolding b0 sp using same par k by simp
    qed
    show ?thesis using r2 l2 keep2 par2 by blast
  qed
qed

lemma xorWindow_frame:
  assumes ab: "a \<le> b" and bs: "b \<le> len s" and bn: "b \<le> cap new"
  shows "len (xorWindow new s a b) = len s"
    and "drop b (bytesOf (xorWindow new s a b)) = drop b (bytesOf s)"
proof -
  let ?zs = "map2 (XOR) (window a b (fullOf new)) (window a b (fullOf s))"
  have cs: "len s \<le> cap s" "length (fullOf s) = cap s" "length (fullOf new) = cap new"
    by (cases s; cases new; simp)+
  have lz: "length ?zs = b - a" using bs bn cs by (simp add: length_window)
  have put: "xorWindow new s a b = putBytes s (splice a ?zs (bytesOf s))"
    unfolding xorWindow_def using lz ab bs by (intro putSlice_putBytes) simp
  have ls: "length (splice a ?zs (bytesOf s)) = len s"
    using lz ab bs by (simp add: length_splice len_def)
  show "len (xorWindow new s a b) = len s"
    using put ls by (simp add: len_putBytes)
  have "bytesOf (xorWindow new s a b) = splice a ?zs (bytesOf s)"
    using put ls by (simp add: bytesOf_putBytes)
  then show "drop b (bytesOf (xorWindow new s a b)) = drop b (bytesOf s)"
    using drop_splice [OF lz ab, of "bytesOf s"] bs by (simp add: len_def)
qed

text \<open>All goroutines: when those for the bytes before \<open>start\<close> have run, the parity shards
  hold the new parity before \<open>start\<close> and the old one from \<open>start\<close> on, and the data
  shards their old bytes from \<open>start\<close> on. With a range size that is not zero the loop
  ends, and the parity shards hold the new parity.\<close>

lemma updateRanges_exact:
  assumes wf: "wf_encoder r"
    and len: "length shards = Shards r"
    and n: "\<forall>s\<in>set shards. len s = n"
    and new: "length newDatashards = DataShards r"
      "\<forall>s\<in>set newDatashards. s = NilShard \<or> len s = n"
    and W: "W = (\<lambda>start stop. foldO (updateColumnP (parity_rs r) newDatashards
                   [DataShards r..<length shards] (ParityShards r) start stop)
                   [0..<DataShards r])"
    and do: "0 < do" and st: "start \<le> n"
    and lm: "length mem = length shards"
    and data: "\<forall>c<DataShards r. len (mem ! c) = n \<and>
        drop start (bytesOf (mem ! c)) = drop start (bytesOf (shards ! c))"
    and par: "\<forall>k<ParityShards r. len (mem ! (DataShards r + k)) = n \<and>
        bytesOf (mem ! (DataShards r + k))
          = mixAt start
              (rowTimes (parity_rs r ! k)
                 (dataAfter (DataShards r) (DataShards r) shards newDatashards) n)
              (rowTimes (parity_rs r ! k)
                 (dataAfter (DataShards r) 0 shards newDatashards) n)"
  shows "\<exists>mem'. updateRanges W do start n mem = Some mem' \<and> length mem' = length shards \<and>
           (\<forall>k<ParityShards r. bytesOf (mem' ! (DataShards r + k))
              = rowTimes (parity_rs r ! k)
                  (dataAfter (DataShards r) (DataShards r) shards newDatashards) n)"
  using W do st lm data par n new(2)
proof (induction W do start n mem rule: updateRanges.induct)
  case (1 worker do start byteCount mem)
  note w = wf_encoderD [OF wf]
  let ?d = "DataShards r" and ?p = "ParityShards r"
  let ?outs = "[?d..<length shards]"
  let ?R1 = "\<lambda>k. rowTimes (parity_rs r ! k) (dataAfter ?d ?d shards newDatashards) byteCount"
  let ?R0 = "\<lambda>k. rowTimes (parity_rs r ! k) (dataAfter ?d 0 shards newDatashards) byteCount"
  have lR: "\<And>k. length (?R1 k) = byteCount" "\<And>k. length (?R0 k) = byteCount"
    by (simp_all add: rowTimes_def)
  note W = "1.prems"(1) and do = "1.prems"(2) and st = "1.prems"(3) and lm = "1.prems"(4)
    and data = "1.prems"(5) and par = "1.prems"(6)
    and nb = "1.prems"(7) and newb = "1.prems"(8)
  show ?case
  proof (cases "start < byteCount")
    case False
    then have eq: "start = byteCount" using st by simp
    have "updateRanges worker do start byteCount mem = Some mem" using False by simp
    moreover have "\<forall>k<?p. bytesOf (mem ! (?d + k)) = ?R1 k"
    proof (intro allI impI)
      fix k assume "k < ?p"
      then have "bytesOf (mem ! (?d + k)) = mixAt byteCount (?R1 k) (?R0 k)"
        using par eq by simp
      then show "bytesOf (mem ! (?d + k)) = ?R1 k" using lR by (simp add: mixAt_full)
    qed
    ultimately show ?thesis using lm by simp
  next
    case True
    let ?do = "if start + do > byteCount then byteCount - start else do"
    let ?stop = "start + ?do"
    have dne: "do \<noteq> 0" using do by simp
    have stop: "start \<le> ?stop" "?stop \<le> byteCount" "0 < ?do" using True do by auto
    have data0: "\<forall>c<?d. len (mem ! c) = byteCount \<and>
        window start ?stop (bytesOf (mem ! c)) = window start ?stop (bytesOf (shards ! c))"
      using data by (simp add: window_def)
    have par0: "\<forall>k<?p. len (mem ! (?d + k)) = byteCount \<and>
        window start ?stop (bytesOf (mem ! (?d + k))) = window start ?stop (?R0 k)"
    proof (intro allI impI)
      fix k assume k: "k < ?p"
      have "window start ?stop (mixAt start (?R1 k) (?R0 k)) = window start ?stop (?R0 k)"
        using lR st by (intro window_mixAt) simp_all
      then show "len (mem ! (?d + k)) = byteCount \<and>
        window start ?stop (bytesOf (mem ! (?d + k))) = window start ?stop (?R0 k)"
        using par k by simp
    qed
    from goroutine_exact [OF wf len nb new(1) newb stop(1,2) lm data0 par0 order_refl]
    obtain mem1 where
      run: "foldO (updateColumnP (parity_rs r) newDatashards ?outs ?p start ?stop)
              [0..<?d] mem = Some mem1"
      and l1: "length mem1 = length shards"
      and p1: "\<forall>k<?p. mem1 ! (?d + k) = putBytes (mem ! (?d + k))
               (splice start (window start ?stop (?R1 k)) (bytesOf (mem ! (?d + k))))"
      by blast
    have wk: "worker start ?stop mem = Some mem1" using run W by simp
    have dl: "?d \<le> length mem" using lm len w by simp
    have outs: "\<forall>k<?p. ?d \<le> ?outs ! k" using len w by simp
    note gd = goroutine_data [OF run order_refl dl outs]
    have data1: "\<forall>c<?d. len (mem1 ! c) = byteCount \<and>
        drop ?stop (bytesOf (mem1 ! c)) = drop ?stop (bytesOf (shards ! c))"
    proof (intro allI impI)
      fix c assume c: "c < ?d"
      have old: "drop ?stop (bytesOf (mem ! c)) = drop ?stop (bytesOf (shards ! c))"
      proof -
        have "drop ?stop (bytesOf (mem ! c)) = drop ?do (drop start (bytesOf (mem ! c)))"
          by (simp add: add.commute)
        also have "\<dots> = drop ?do (drop start (bytesOf (shards ! c)))"
          using data c by simp
        finally show ?thesis by (simp add: add.commute)
      qed
      show "len (mem1 ! c) = byteCount \<and>
        drop ?stop (bytesOf (mem1 ! c)) = drop ?stop (bytesOf (shards ! c))"
      proof (cases "newDatashards ! c = NilShard")
        case True
        then have "mem1 ! c = mem ! c" using gd c by simp
        then show ?thesis using data c old by simp
      next
        case False
        then have x: "?stop \<le> cap (newDatashards ! c)"
          "mem1 ! c = xorWindow (newDatashards ! c) (mem ! c) start ?stop"
          using gd c by simp_all
        have "?stop \<le> len (mem ! c)" using data c stop(2) by simp
        from xorWindow_frame [OF stop(1) this x(1)]
        show ?thesis using x(2) data c old by simp
      qed
    qed
    have par1: "\<forall>k<?p. len (mem1 ! (?d + k)) = byteCount \<and>
        bytesOf (mem1 ! (?d + k)) = mixAt ?stop (?R1 k) (?R0 k)"
    proof (intro allI impI)
      fix k assume k: "k < ?p"
      have bk: "bytesOf (mem ! (?d + k)) = mixAt start (?R1 k) (?R0 k)"
        and lk: "len (mem ! (?d + k)) = byteCount"
        using par k by simp_all
      have sp: "splice start (window start ?stop (?R1 k)) (mixAt start (?R1 k) (?R0 k))
          = mixAt ?stop (?R1 k) (?R0 k)"
        using lR stop by (intro splice_mixAt) simp_all
      have "length (mixAt ?stop (?R1 k) (?R0 k)) = byteCount"
        using lR by (simp add: length_mixAt)
      then show "len (mem1 ! (?d + k)) = byteCount \<and>
        bytesOf (mem1 ! (?d + k)) = mixAt ?stop (?R1 k) (?R0 k)"
        using p1 k bk lk sp by (simp add: bytesOf_putBytes len_putBytes)
    qed
    from "1.IH" [OF True dne wk W stop(3,2) l1 data1 par1 nb newb]
    obtain mem' where
      r: "updateRanges worker ?do ?stop byteCount mem1 = Some mem'"
      and l: "length mem' = length shards"
      and p: "\<forall>k<?p. bytesOf (mem' ! (?d + k)) = ?R1 k"
      by blast
    have "updateRanges worker do start byteCount mem = Some mem'"
      using True dne wk r by (subst updateRanges.simps) simp
    then show ?thesis using l p by blast
  qed
qed

lemma shardSize_nil_or:
  assumes "\<forall>s\<in>set shards. s = NilShard \<or> len s = n" "\<exists>s\<in>set shards. s \<noteq> NilShard" "0 < n"
  shows "shardSize shards = n"
proof -
  obtain s where s: "s \<in> set shards" "len s = n" using assms(1,2) by blast
  then have nz: "shardSize shards \<noteq> 0" using assms(3) shardSize_present [of s shards] by simp
  then obtain t where "t \<in> set shards" "len t = shardSize shards"
    using shardSize_mem by blast
  then show ?thesis using assms(1) nz by fastforce
qed

lemma Multiply_parity_pointwise:
  assumes wf: "wf_encoder r"
    and D: "length D = DataShards r" "\<forall>row\<in>set D. length row = n"
    and out: "length P = ParityShards r"
  shows "Multiply (parity_rs r) D = Inr P \<longleftrightarrow>
           (\<forall>k<ParityShards r. P ! k = rowTimes (parity_rs r ! k) D n)"
proof -
  note w = wf_encoderD [OF wf]
  have pne: "parity_rs r \<noteq> []" using w by auto
  have Dne: "D \<noteq> []" using D(1) w by auto
  have ncP: "numCols (parity_rs r) = length D" using numCols_nth [OF pne] w D(1) by simp
  have "D ! 0 \<in> set D" using Dne by simp
  then have ncD: "numCols D = n" using numCols_nth [OF Dne] D(2) by simp
  have "Multiply (parity_rs r) D = Inr (map (\<lambda>row. rowTimes row D n) (parity_rs r))"
    using Multiply_rowTimes [OF ncP] ncD by simp
  moreover have "map (\<lambda>row. rowTimes row D n) (parity_rs r) = P \<longleftrightarrow>
      (\<forall>k<ParityShards r. P ! k = rowTimes (parity_rs r ! k) D n)"
    using out w(8) by (auto simp: list_eq_iff_nth_eq)
  ultimately show ?thesis by simp
qed

lemma updateParityShards_parity:
  assumes wf: "wf_encoder r"
    and len: "length shards = Shards r"
    and n: "\<forall>s\<in>set shards. len s = n"
    and new: "length newDatashards = DataShards r"
      "\<forall>s\<in>set newDatashards. s = NilShard \<or> len s = n"
    and cons: "\<forall>k<ParityShards r. bytesOf (shards ! (DataShards r + k))
        = rowTimes (parity_rs r ! k) (dataAfter (DataShards r) 0 shards newDatashards) n"
    and split: "0 < minSplitSize (o_rs r)"
  shows "\<exists>mem. updateParityShards r (parity_rs r) newDatashards [DataShards r..<length shards]
                  (ParityShards r) n shards = Some mem \<and>
           length mem = length shards \<and>
           (\<forall>k<ParityShards r. bytesOf (mem ! (DataShards r + k))
              = rowTimes (parity_rs r ! k)
                  (dataAfter (DataShards r) (DataShards r) shards newDatashards) n)"
proof (cases "maxGoroutines (o_rs r) > 1 \<and> int n > minSplitSize (o_rs r)")
  case False
  note w = wf_encoderD [OF wf]
  let ?d = "DataShards r" and ?p = "ParityShards r"
  let ?D1 = "dataAfter ?d ?d shards newDatashards"
  obtain mem where run: "foldO (updateColumn (parity_rs r) newDatashards [?d..<length shards] ?p)
                   [0..<?d] shards = Some mem"
    and lm: "length mem = length shards"
    and par: "\<forall>k<?p. mem ! (?d + k) = putBytes (shards ! (?d + k)) (rowTimes (parity_rs r ! k) ?D1 n)"
    using updateParityShards_exact [OF wf len n new cons order_refl] by blast
  have "\<forall>k<?p. bytesOf (mem ! (?d + k)) = rowTimes (parity_rs r ! k) ?D1 n"
  proof (intro allI impI)
    fix k assume k: "k < ?p"
    have "len (shards ! (?d + k)) = n" using n k len w by simp
    then show "bytesOf (mem ! (?d + k)) = rowTimes (parity_rs r ! k) ?D1 n"
      using par k by (simp add: bytesOf_putBytes)
  qed
  moreover have "updateParityShards r (parity_rs r) newDatashards [?d..<length shards] ?p n shards
      = Some mem"
    using False run by (auto simp: updateParityShards_def)
  ultimately show ?thesis using lm by blast
next
  case True
  note w = wf_encoderD [OF wf]
  let ?d = "DataShards r" and ?p = "ParityShards r"
  let ?W = "\<lambda>start stop. foldO (updateColumnP (parity_rs r) newDatashards
                   [?d..<length shards] ?p start stop) [0..<?d]"
  let ?do0 = "int n div maxGoroutines (o_rs r)"
  let ?do = "if ?do0 < minSplitSize (o_rs r) then minSplitSize (o_rs r) else ?do0"
  have dpos: "0 < nat ?do" using split by auto
  have data: "\<forall>c<?d. len (shards ! c) = n \<and>
        drop 0 (bytesOf (shards ! c)) = drop 0 (bytesOf (shards ! c))"
    using n len w by simp
  have par: "\<forall>k<?p. len (shards ! (?d + k)) = n \<and>
        bytesOf (shards ! (?d + k))
          = mixAt 0 (rowTimes (parity_rs r ! k) (dataAfter ?d ?d shards newDatashards) n)
              (rowTimes (parity_rs r ! k) (dataAfter ?d 0 shards newDatashards) n)"
    using n len w cons by simp
  from updateRanges_exact [OF wf len n new refl dpos _ refl data par]
  obtain mem' where r: "updateRanges ?W (nat ?do) 0 n shards = Some mem'"
    and l: "length mem' = length shards"
    and p: "\<forall>k<?p. bytesOf (mem' ! (?d + k))
              = rowTimes (parity_rs r ! k) (dataAfter ?d ?d shards newDatashards) n"
    by auto
  have "updateParityShards r (parity_rs r) newDatashards [?d..<length shards] ?p n shards
      = Some mem'"
    using True r by (simp add: updateParityShards_def updateParityShardsP_def Let_def)
  then show ?thesis using l p by blast
qed

text \<open>
  Claim C5, as amended. Let every shard of the vector be present with one length \<open>n\<close>,
  let the parity shards be the parity of the data shards (what Encode leaves), and let
  every new data shard be nil or of length \<open>n\<close>, one of them not nil; let the split
  threshold of the encoder be positive, as the loop that starts the goroutines needs
  to advance. Then Update returns nil, by the sequential loop or by the goroutines,
  and the parity shards it leaves have the bytes that Encode computes for the vector
  with the new data shards in place of the old ones.
\<close>

theorem Update_equals_reencode:
  assumes wf: "wf_encoder r"
    and split: "0 < minSplitSize (o_rs r)"
    and len: "length shards = Shards r"
    and n: "0 < n" "\<forall>s\<in>set shards. len s = n"
    and new: "length newDatashards = DataShards r"
      "\<forall>s\<in>set newDatashards. s = NilShard \<or> len s = n"
      "\<exists>s\<in>set newDatashards. s \<noteq> NilShard"
    and cons: "Multiply (parity_rs r) (map bytesOf (take (DataShards r) shards))
                 = Inr (map bytesOf (drop (DataShards r) shards))"
  shows "fst (Update r shards newDatashards) = None \<and>
         fst (Encode r (newShards shards newDatashards)) = None \<and>
         map bytesOf (drop (DataShards r) (snd (Update r shards newDatashards)))
           = map bytesOf (drop (DataShards r) (snd (Encode r (newShards shards newDatashards))))"
proof -
  note w = wf_encoderD [OF wf]
  let ?d = "DataShards r" and ?p = "ParityShards r"
  let ?D0 = "dataAfter ?d 0 shards newDatashards"
  let ?D1 = "dataAfter ?d ?d shards newDatashards"
  let ?ns = "newShards shards newDatashards"
  have D0: "?D0 = map bytesOf (take ?d shards)"
    unfolding dataAfter_def using len w by (simp add: map_nth_upt_take)
  have rows0: "\<forall>row\<in>set ?D0. length row = n"
    using n len w by (auto simp: dataAfter_def len_def [symmetric])
  have "\<forall>k<?p. map bytesOf (drop ?d shards) ! k = rowTimes (parity_rs r ! k) ?D0 n"
    using Multiply_parity_pointwise [OF wf _ rows0, of "map bytesOf (drop ?d shards)"]
      cons D0 len w by (simp add: dataAfter_def)
  then have cons': "\<forall>k<?p. bytesOf (shards ! (?d + k)) = rowTimes (parity_rs r ! k) ?D0 n"
    using len w by simp
  obtain mem where run: "updateParityShards r (parity_rs r) newDatashards [?d..<length shards]
                           ?p n shards = Some mem"
    and lm: "length mem = length shards"
    and par: "\<forall>k<?p. bytesOf (mem ! (?d + k)) = rowTimes (parity_rs r ! k) ?D1 n"
    using updateParityShards_parity [OF wf len n(2) new(1,2) cons' split] by blast
  have ne: "shards \<noteq> []" using len w by auto
  have sz: "shardSize shards = n" using n ne shardSize_uniform [of shards n] by simp
  have chk: "checkShards shards True = None"
    using n sz by (simp add: checkShards_None_iff)
  have chk2: "checkShards newDatashards True = None"
    using shardSize_nil_or [OF new(2,3) n(1)] new(2) n(1) by (auto simp: checkShards_None_iff)
  have nonil: "\<forall>i<length shards. shards ! i \<noteq> NilShard"
    using n by (metis len_simps(1) less_numeral_extra(3) nth_mem)
  have no1: "\<not> list_ex (\<lambda>i. newDatashards ! i \<noteq> NilShard \<and> shards ! i = NilShard)
                [0..<length newDatashards]"
    using nonil new(1) len w by (auto simp: list_ex_iff)
  have no2: "\<not> list_ex (\<lambda>p. p = NilShard) (drop ?d shards)"
    using nonil by (auto simp: list_ex_iff in_set_conv_nth)
  have upd: "Update r shards newDatashards = (None, mem)"
    using len new(1) chk chk2 no1 no2 run sz
    by (simp add: Update_def)
  have lns: "length ?ns = Shards r" using len by (simp add: newShards_def)
  have nns: "\<forall>s\<in>set ?ns. len s = n"
  proof
    fix s assume "s \<in> set ?ns"
    then obtain i where i: "i < length shards"
      and s: "s = (if i < length newDatashards \<and> newDatashards ! i \<noteq> NilShard
                   then newDatashards ! i else shards ! i)"
      by (auto simp: newShards_def)
    show "len s = n"
    proof (cases "i < length newDatashards \<and> newDatashards ! i \<noteq> NilShard")
      case True
      then have "newDatashards ! i \<in> set newDatashards" by simp
      then show ?thesis using new(2) s True by fastforce
    next
      case False
      then show ?thesis using s n i by simp
    qed
  qed
  have D1: "map bytesOf (take ?d ?ns) = ?D1"
    by (rule nth_equalityI) (use len w new(1) in \<open>auto simp: newShards_def dataAfter_def\<close>)
  have rows1: "\<forall>row\<in>set ?D1. length row = n"
    using nns lns w D1 [symmetric] by (auto simp: len_def dest: in_set_takeD)
  note e = Encode_well_shaped [OF wf lns n(1) nns]
  have "\<forall>k<?p. map bytesOf (drop ?d (snd (Encode r ?ns))) ! k = rowTimes (parity_rs r ! k) ?D1 n"
    using Multiply_parity_pointwise [OF wf _ rows1, of "map bytesOf (drop ?d (snd (Encode r ?ns)))"]
      e(2,4) D1 w by (simp add: dataAfter_def)
  moreover have "\<forall>k<?p. map bytesOf (drop ?d mem) ! k = rowTimes (parity_rs r ! k) ?D1 n"
    using par lm len w by simp
  ultimately have "map bytesOf (drop ?d mem) = map bytesOf (drop ?d (snd (Encode r ?ns)))"
    using lm len e(2) w by (intro nth_equalityI) simp_all
  then show ?thesis using upd e(1) by simp
qed

theorem Update_equals_reencode_witness:
  "0 < minSplitSize (o_rs enc21P) \<and>
   fst (Update enc21P [Buf [1, 2] [], Buf [3, 4] [], Buf [5, 14] []] [Buf [7, 7] [], NilShard]) = None \<and>
   map bytesOf (drop 2 (snd (Update enc21P [Buf [1, 2] [], Buf [3, 4] [], Buf [5, 14] []]
                               [Buf [7, 7] [], NilShard])))
     = map bytesOf (drop 2 (snd (Encode enc21P
         (newShards [Buf [1, 2] [], Buf [3, 4] [], Buf [5, 14] []] [Buf [7, 7] [], NilShard]))))"
proof -
  have e: "DataShards enc21P = 2" "Shards enc21P = 3" "0 < minSplitSize (o_rs enc21P)"
    by (simp_all add: enc21P_def defaultOptions_def)
  have cons: "Multiply (parity_rs enc21P)
        (map bytesOf (take (DataShards enc21P) [Buf [1, 2] [], Buf [3, 4] [], Buf [5, 14] []]))
      = Inr (map bytesOf (drop (DataShards enc21P) [Buf [1, 2] [], Buf [3, 4] [], Buf [5, 14] []]))"
    by code_simp
  show ?thesis
    using Update_equals_reencode [OF wf_enc21P e(3), of "[Buf [1, 2] [], Buf [3, 4] [], Buf [5, 14] []]" 2
            "[Buf [7, 7] [], NilShard]", OF _ _ _ _ _ _ cons] e
    by simp
qed

text \<open>
  The claim as stated asks nothing of the old parity shards but their presence. With
  parity shards that are not the parity of the old data, Update and Encode disagree:
  for \<open>New(2, 1)\<close>, old data \<open>[5]\<close>, \<open>[0]\<close>, an old parity \<open>[7]\<close> (the parity of this
  data is \<open>[15]\<close>) and the new first shard \<open>[6]\<close>, Update leaves the parity \<open>[2]\<close> and
  Encode computes \<open>[10]\<close>.
\<close>

theorem Update_stale_parity_counterexample:
  "Update enc21 [Buf [5] [], Buf [0] [], Buf [7] []] [Buf [6] [], NilShard]
     = (None, [Buf [3] [], Buf [0] [], Buf [2] []]) \<and>
   Encode enc21 (newShards [Buf [5] [], Buf [0] [], Buf [7] []] [Buf [6] [], NilShard])
     = (None, [Buf [6] [], Buf [0] [], Buf [10] []]) \<and>
   map bytesOf (drop (DataShards enc21) [Buf [3] [], Buf [0] [], Buf [2] []])
     \<noteq> map bytesOf (drop (DataShards enc21) [Buf [6] [], Buf [0] [], Buf [10] []])"
  by code_simp

section \<open>GetSurvivalShards on a code without local repair\<close>

text \<open>
  Claim C4, at a failing input. \<open>New(2, 1)\<close> is not an LRC encoder. With the one bad
  index 0 the survivors are 1 and 2, their rows \<open>[0, 1]\<close> and \<open>[3, 2]\<close> form an
  invertible matrix, and the loop chooses this first combination. The final return of
  GetSurvivalShards looks at the number of bad indices only: with a single one it
  returns \<open>forComputationShards\<close>, which is filled for LRC encoders only and is empty
  here. The read list is empty although the selected combination decodes; the claim
  has it equal to the selected list \<open>[1, 2]\<close>.
\<close>

theorem GetSurvivalShards_single_failure_reads_nothing:
  "GetSurvivalShards (\<lambda>n k. int (n choose k)) enc21 [0] [] = ([1, 2], [], None)"
  by code_simp

section \<open>PartialReconstruct overwrites its outputs\<close>

text \<open>
  Claim C2, at a failing input. \<open>New(2, 1)\<close>, data shards \<open>[1, 2]\<close> and \<open>[3, 4]\<close>, parity
  \<open>[5, 14]\<close>; shard 0 is bad, the survivors are 1 and 2. The output buffer is a
  zero-length slice of capacity 2 over zeroed memory. The call with shard 1 alone
  leaves \<open>[2, 243]\<close> in it. The caller cuts the buffer back to length 0, which keeps
  these bytes in its memory, and calls again with shard 2 alone: the buffer then holds
  \<open>[3, 241]\<close>, the contribution of shard 2, and not \<open>[1, 2]\<close>, which the call with both
  survivors present computes and which is the XOR of the two contributions. Column 0
  of the coding loop writes with galMulSlice, so each call replaces what the buffer
  held.
\<close>

theorem PartialReconstruct_second_call_overwrites:
  "PartialReconstruct enc21 [Buf [] [0, 0], Buf [3, 4] [], NilShard] [1, 2] [0]
     = (None, [Buf [2, 243] [], Buf [3, 4] [], Buf [0, 0] []],
        ([0], [[245, 244], [1, 0]]) # tree_rs enc21) \<and>
   PartialReconstruct (enc21\<lparr>tree_rs := ([0], [[245, 244], [1, 0]]) # tree_rs enc21\<rparr>)
       [Buf [] [2, 243], NilShard, Buf [5, 14] []] [1, 2] [0]
     = (None, [Buf [3, 241] [], Buf [0, 0] [], Buf [5, 14] []],
        ([0], [[245, 244], [1, 0]]) # tree_rs enc21) \<and>
   PartialReconstruct enc21 [Buf [] [0, 0], Buf [3, 4] [], Buf [5, 14] []] [1, 2] [0]
     = (None, [Buf [1, 2] [], Buf [3, 4] [], Buf [5, 14] []],
        ([0], [[245, 244], [1, 0]]) # tree_rs enc21) \<and>
   map2 (XOR) [2, 243] [3, 241] = [1, 2 :: byte]"
  by code_simp

section \<open>The multiplication inside PartialReconstruct\<close>

text \<open>The matrices the tree holds have \<open>DataShards\<close> rows: the identity at the root, and
  every inserted matrix is the inverse of a matrix of \<open>DataShards\<close> rows.\<close>

definition tree_ok :: "reedSolomon \<Rightarrow> bool" where
  "tree_ok r \<longleftrightarrow> list_all (\<lambda>(k, M). length M = DataShards r) (tree_rs r)"

lemma gaussPivot_length: "gaussPivot k M = Some M1 \<Longrightarrow> length M1 = length M"
  by (auto simp: gaussPivot_def swapRows_def split: if_splits option.splits)

lemma gaussColumn_length: "gaussColumn k M = Inr M' \<Longrightarrow> length M' = length M"
  by (auto simp: gaussColumn_def eliminate_def split: option.splits dest: gaussPivot_length)

lemma gaussColumns_length: "gaussColumns ks M = Inr M' \<Longrightarrow> length M' = length M"
proof (induction ks arbitrary: M)
  case Nil
  then show ?case by simp
next
  case (Cons k ks)
  then show ?case by (auto split: sum.splits dest: gaussColumn_length)
qed

lemma Invert_length: "Invert A = Inr R \<Longrightarrow> length R = length A"
  by (auto simp: Invert_def gaussianElimination_def augment_def identityMatrix_def
      split: sum.splits dest!: gaussColumns_length)

lemma survivalSubMatrix_length:
  "survivalSubMatrix r survivalIdx = Inr S \<Longrightarrow> length S = DataShards r"
  by (auto simp: survivalSubMatrix_def split: if_splits)

lemma cachedInverse_length:
  assumes "tree_ok r"
    and "cachedInverse r invalidIndices subMatrix = Inr (M, t)"
    and "\<And>S. subMatrix = Inr S \<Longrightarrow> length S = DataShards r"
  shows "length M = DataShards r" and "tree_ok (r\<lparr>tree_rs := t\<rparr>)"
proof -
  have "length M = DataShards r \<and> tree_ok (r\<lparr>tree_rs := t\<rparr>)"
  proof (cases "GetInvertedMatrix (tree_rs r) invalidIndices")
    case (Some M')
    then have eq: "M' = M" "t = tree_rs r" using assms(2) by (simp_all add: cachedInverse_def)
    have "(invalidIndices, M') \<in> set (tree_rs r)"
      using Some by (simp add: GetInvertedMatrix_def map_of_SomeD)
    then have "length M' = DataShards r"
      using assms(1) by (auto simp: tree_ok_def list_all_iff)
    then show ?thesis using eq assms(1) by (simp add: tree_ok_def)
  next
    case None
    then obtain S where S: "subMatrix = Inr S" and inv: "Invert S = Inr M"
      and t: "t = (invalidIndices, M) # tree_rs r"
      using assms(2)
      by (auto simp: cachedInverse_def InsertInvertedMatrix_def split: sum.splits)
    have "length M = DataShards r" using Invert_length [OF inv] assms(3) [OF S] by simp
    then show ?thesis using t assms(1) by (simp add: tree_ok_def)
  qed
  then show "length M = DataShards r" and "tree_ok (r\<lparr>tree_rs := t\<rparr>)" by simp_all
qed

lemma tree_ok_New: "New dataShards parityShards opts = Inr r \<Longrightarrow> tree_ok r"
  by (auto simp: New_def Let_def tree_ok_def newInversionTree_def identityMatrix_def
      split: if_splits sum.splits)


lemma PartialReconstruct_tree_ok:
  assumes "tree_ok r"
    and "PartialReconstruct r shards survivalIdx badIdx = (e, shards', t)"
  shows "tree_ok (r\<lparr>tree_rs := t\<rparr>)"
proof -
  let ?inv = "filter (\<lambda>i. int i \<notin> set survivalIdx) [0..<Shards r]"
  have same: "tree_ok (r\<lparr>tree_rs := tree_rs r\<rparr>)" using assms(1) by (simp add: tree_ok_def)
  show ?thesis
  proof (cases "cachedInverse r ?inv (survivalSubMatrix r survivalIdx)")
    case (Inl err)
    then have "t = tree_rs r"
      using assms(2) by (auto simp: PartialReconstruct_def Let_def split: if_splits)
    then show ?thesis using same by simp
  next
    case (Inr p)
    obtain M t' where p: "p = (M, t')" by (cases p)
    have ok: "tree_ok (r\<lparr>tree_rs := t'\<rparr>)"
      using cachedInverse_length(2) [OF assms(1) Inr [unfolded p]] survivalSubMatrix_length
      by blast
    have "t = tree_rs r \<or> t = t'"
      using assms(2) Inr p
      by (auto simp: PartialReconstruct_def Let_def split: if_splits sum.splits option.splits)
    then show ?thesis using ok same by auto
  qed
qed


text \<open>With no bad index the multiplication does fail (the empty matrix has no column)
  and PartialReconstruct returns nil there; nothing is written, the survivors that are
  absent are not even zero-filled.\<close>

lemma PartialReconstruct_no_bad_index_example:
  "PartialReconstruct enc21 [Buf [] [0, 0], Buf [3, 4] [], NilShard] [1, 2] []
     = (None, [Buf [] [0, 0], Buf [3, 4] [], NilShard],
        ([0], [[245, 244], [1, 0]]) # tree_rs enc21)"
  by code_simp




end
